theory Spec2Isabelle
  imports Complex_Main "HOL-Library.Multiset"
begin

section \<open>Data model of examples/page\_rank/page\_rank.hpp\<close>

text \<open>
  \<^verbatim>\<open>PageId\<close> is \<^verbatim>\<open>std::size_t\<close>. Inside \<^verbatim>\<open>page_rank.hpp\<close> page ids are only
  compared, copied and used as indices, so they are natural numbers here; the two
  places of \<^verbatim>\<open>page_rank_run.cpp\<close> where the width of the machine integer matters
  (\<^verbatim>\<open>strtoul\<close> and \<^verbatim>\<open>Max() + 1\<close>) write the 64-bit wrap-around out.

  \<^verbatim>\<open>Rank\<close> is \<^verbatim>\<open>double\<close>. Ranks are modelled by exact real numbers: rounding,
  infinities and NaN are not part of the model, and every statement about rank values
  below is a statement of exact arithmetic. In particular a sum of contributions does not
  depend on the order of its terms here, while the sum of the same terms in \<^verbatim>\<open>double\<close>
  can differ in the last bit with the order in which the engine delivers them.
\<close>

type_synonym PageId = nat
type_synonym Rank = real

definition dampening :: real where
  "dampening = 0.85"

record PagePageLink =
  src :: PageId
  tgt :: PageId

record PageRankPair =
  page :: PageId
  rank :: Rank

type_synonym PageRankStdPair = "PageId \<times> Rank"
type_synonym OutgoingLinks = "PageId list"
type_synonym OutgoingLinksRank = "PageId list \<times> Rank"
type_synonym LinkedPage = "PageId \<times> OutgoingLinks"
type_synonym RankedPage = "PageId \<times> Rank"

text \<open>Every fatal exit of the program (\<^verbatim>\<open>die\<close>, \<^verbatim>\<open>die_unless\<close>, a fatal error of an
  operator) is a value of this type.\<close>

datatype error =
    ParseError
  | FromStrError
  | UnequalSize
  | KeyOutOfRange
  | DivisionByZero

section \<open>The dataflow operators\<close>

text \<open>
  The operators are declared in the headers \<^verbatim>\<open>thrill/api/*.hpp\<close>, which the two source
  files include but which are not among the sources at hand; each operator is modelled
  from its description in the specification (sections 4.2, 4.3 and 5). A distributed
  collection (\<^verbatim>\<open>DIA\<close>) is the list of its workers' local parts, in worker order; its
  global sequence is their concatenation. The number of parts is the number of workers of
  the collection's context. \<^verbatim>\<open>Collapse\<close>, \<^verbatim>\<open>Cache\<close>, \<^verbatim>\<open>Keep\<close>,
  \<^verbatim>\<open>KeepForever\<close> and \<^verbatim>\<open>Execute\<close> change when a collection is computed and stored,
  not what it holds, and are left out.
\<close>

type_synonym 'a DIA = "'a list list"

record Context =
  num_workers :: nat

definition items :: "'a DIA \<Rightarrow> 'a list" where
  "items d = concat d"

definition DIA_context :: "'a DIA \<Rightarrow> Context" where
  "DIA_context d = \<lparr>num_workers = length d\<rparr>"

text \<open>Modelled from the spec: a collection split into contiguous partitions, one per
  worker. Worker \<open>i\<close> of \<open>W\<close> holds the positions from \<open>i * n div W\<close> up to
  \<open>(i + 1) * n div W\<close> of a sequence of length \<open>n\<close>.\<close>

definition range_split :: "nat \<Rightarrow> 'a list \<Rightarrow> 'a DIA" where
  "range_split W xs =
     map (\<lambda>i. take ((i + 1) * length xs div W - i * length xs div W)
                 (drop (i * length xs div W) xs)) [0..<W]"

text \<open>Modelled from the spec: a collection split into hashed partitions; a record with
  key \<open>k\<close> lives on worker \<open>hash k mod W\<close>. The hash function is a parameter.\<close>

definition hash_split :: "('k \<Rightarrow> nat) \<Rightarrow> nat \<Rightarrow> ('a \<Rightarrow> 'k) \<Rightarrow> 'a list \<Rightarrow> 'a DIA" where
  "hash_split h W key xs = map (\<lambda>w. filter (\<lambda>x. h (key x) mod W = w) xs) [0..<W]"

text \<open>Modelled from the spec: \<^verbatim>\<open>Generate(ctx, n, f)\<close> of the missing
  \<^verbatim>\<open>thrill/api/generate.hpp\<close> yields \<open>f 0, ..., f (n - 1)\<close>, in index order.\<close>

definition Generate :: "Context \<Rightarrow> nat \<Rightarrow> (nat \<Rightarrow> 'a) \<Rightarrow> 'a DIA" where
  "Generate ctx n f = range_split (num_workers ctx) (map f [0..<n])"

text \<open>Modelled from the spec: \<^verbatim>\<open>Map\<close> of the missing \<^verbatim>\<open>thrill/api/dia.hpp\<close> transforms
  every record where it lies.\<close>

definition Map :: "('a \<Rightarrow> 'b) \<Rightarrow> 'a DIA \<Rightarrow> 'b DIA" where
  "Map f d = map (map f) d"

text \<open>A \<^verbatim>\<open>Map\<close> whose function can abort the run (\<^verbatim>\<open>die_unless\<close>): the first
  failure is the result.\<close>

fun map_or_die :: "('a \<Rightarrow> error + 'b) \<Rightarrow> 'a list \<Rightarrow> error + 'b list" where
  "map_or_die f [] = Inr []"
| "map_or_die f (x # xs) =
     (case f x of
        Inl e \<Rightarrow> Inl e
      | Inr y \<Rightarrow> (case map_or_die f xs of Inl e \<Rightarrow> Inl e | Inr ys \<Rightarrow> Inr (y # ys)))"

definition Map_or_die :: "('a \<Rightarrow> error + 'b) \<Rightarrow> 'a DIA \<Rightarrow> error + 'b DIA" where
  "Map_or_die f d = map_or_die (map_or_die f) d"

text \<open>Modelled from the spec: \<^verbatim>\<open>FlatMap\<close> of the missing \<^verbatim>\<open>thrill/api/dia.hpp\<close>
  replaces every record, where it lies, by the records its function emits, in emission
  order. The function returns the list of emitted records, or the error that stopped
  it.\<close>

definition FlatMap :: "('a \<Rightarrow> error + 'b list) \<Rightarrow> 'a DIA \<Rightarrow> error + 'b DIA" where
  "FlatMap f d =
     map_or_die (\<lambda>part. case map_or_die f part of
                           Inl e \<Rightarrow> Inl e
                         | Inr yss \<Rightarrow> Inr (concat yss)) d"

text \<open>Modelled from the spec: \<^verbatim>\<open>Zip\<close> of the missing \<^verbatim>\<open>thrill/api/zip.hpp\<close> pairs
  the records of two index-aligned collections one-to-one, by position in the global
  sequence. Collections of unequal size have no one-to-one pairing: that is a fatal
  error.\<close>

definition Zip :: "'a DIA \<Rightarrow> 'b DIA \<Rightarrow> ('a \<Rightarrow> 'b \<Rightarrow> 'c) \<Rightarrow> error + 'c DIA" where
  "Zip a b f =
     (if length (items a) = length (items b)
      then Inr (range_split (length a) (map2 f (items a) (items b)))
      else Inl UnequalSize)"

text \<open>Folding the records that share a key, in arrival order: the first record starts
  the fold; an index that received nothing gets the neutral record.\<close>

fun reduce_items :: "('a \<Rightarrow> 'a \<Rightarrow> 'a) \<Rightarrow> 'a \<Rightarrow> 'a list \<Rightarrow> 'a" where
  "reduce_items comb neutral [] = neutral"
| "reduce_items comb neutral (x # xs) = foldl comb x xs"

text \<open>Modelled from the spec: \<^verbatim>\<open>ReduceToIndex(keyFn, combineFn, universeSize)\<close> of the
  missing \<^verbatim>\<open>thrill/api/reduce_to_index.hpp\<close>. Every record is mapped to an index below \<open>universeSize\<close>; an index outside is the fatal
  key-range violation. The result has exactly \<open>universeSize\<close> records, ordered by
  index, split by range. The neutral record is the value-initialised one
  (\<^verbatim>\<open>ValueType()\<close>), passed explicitly.\<close>

definition ReduceToIndex ::
  "('a \<Rightarrow> nat) \<Rightarrow> ('a \<Rightarrow> 'a \<Rightarrow> 'a) \<Rightarrow> nat \<Rightarrow> 'a \<Rightarrow> 'a DIA \<Rightarrow> error + 'a DIA" where
  "ReduceToIndex key comb universe neutral d =
     (if list_all (\<lambda>x. key x < universe) (items d)
      then Inr (range_split (length d)
             (map (\<lambda>i. reduce_items comb neutral (filter (\<lambda>x. key x = i) (items d)))
                  [0..<universe]))
      else Inl KeyOutOfRange)"

text \<open>Modelled from the spec: \<^verbatim>\<open>GroupToIndex(keyFn, groupFn, universeSize)\<close> of the
  missing \<^verbatim>\<open>thrill/api/group_to_index.hpp\<close> hands, per index, the matching records in
  arrival order to \<open>groupFn\<close>, together with the index; a key outside the universe is
  the fatal key-range violation.\<close>

definition GroupToIndex ::
  "('a \<Rightarrow> nat) \<Rightarrow> ('a list \<Rightarrow> nat \<Rightarrow> 'b) \<Rightarrow> nat \<Rightarrow> 'a DIA \<Rightarrow> error + 'b DIA" where
  "GroupToIndex key grp universe d =
     (if list_all (\<lambda>x. key x < universe) (items d)
      then Inr (range_split (length d)
             (map (\<lambda>i. grp (filter (\<lambda>x. key x = i) (items d)) i) [0..<universe]))
      else Inl KeyOutOfRange)"

text \<open>The reduce table of one worker: a record whose key is already in the table is
  folded into the entry, a new key is appended.\<close>

fun insert_reduce :: "('v \<Rightarrow> 'v \<Rightarrow> 'v) \<Rightarrow> 'k \<times> 'v \<Rightarrow> ('k \<times> 'v) list \<Rightarrow> ('k \<times> 'v) list" where
  "insert_reduce comb kv [] = [kv]"
| "insert_reduce comb kv (e # tbl) =
     (if fst e = fst kv then (fst e, comb (snd e) (snd kv)) # tbl
      else e # insert_reduce comb kv tbl)"

definition reduce_by_key :: "('v \<Rightarrow> 'v \<Rightarrow> 'v) \<Rightarrow> ('k \<times> 'v) list \<Rightarrow> ('k \<times> 'v) list" where
  "reduce_by_key comb xs = foldl (\<lambda>tbl kv. insert_reduce comb kv tbl) [] xs"

text \<open>Modelled from the spec: \<^verbatim>\<open>ReducePair(combineFn)\<close> of the missing
  \<^verbatim>\<open>thrill/api/reduce_by_key.hpp\<close> groups by the key field, hash partitioned, and folds
  the values; a key absent from the input is absent from the output.\<close>

definition ReducePair ::
  "('k \<Rightarrow> nat) \<Rightarrow> ('v \<Rightarrow> 'v \<Rightarrow> 'v) \<Rightarrow> ('k \<times> 'v) DIA \<Rightarrow> ('k \<times> 'v) DIA" where
  "ReducePair h comb d = map (reduce_by_key comb) (hash_split h (length d) fst (items d))"

text \<open>Modelled from the spec: \<^verbatim>\<open>GroupByKey(keyFn, groupFn)\<close> of the missing
  \<^verbatim>\<open>thrill/api/group_by_key.hpp\<close>, hash partitioned like \<^verbatim>\<open>ReducePair\<close>: per key that
  occurs, the matching records in arrival order go to \<open>groupFn\<close> with the key.\<close>

definition group_by_key :: "('a \<Rightarrow> 'k) \<Rightarrow> ('a list \<Rightarrow> 'k \<Rightarrow> 'b) \<Rightarrow> 'a list \<Rightarrow> 'b list" where
  "group_by_key key grp xs =
     map (\<lambda>k. grp (filter (\<lambda>x. key x = k) xs) k) (remdups (map key xs))"

definition GroupByKey ::
  "('k \<Rightarrow> nat) \<Rightarrow> ('a \<Rightarrow> 'k) \<Rightarrow> ('a list \<Rightarrow> 'k \<Rightarrow> 'b) \<Rightarrow> 'a DIA \<Rightarrow> 'b DIA" where
  "GroupByKey h key grp d = map (group_by_key key grp) (hash_split h (length d) key (items d))"

text \<open>The join of two local parts: for every pair with equal keys one output record,
  in the product order of the two sides.\<close>

definition local_join ::
  "('a \<Rightarrow> 'k) \<Rightarrow> ('b \<Rightarrow> 'k) \<Rightarrow> ('a \<Rightarrow> 'b \<Rightarrow> 'c) \<Rightarrow> 'a list \<Rightarrow> 'b list \<Rightarrow> 'c list" where
  "local_join keyl keyr comb ls rs =
     concat (map (\<lambda>l. map (comb l) (filter (\<lambda>r. keyr r = keyl l) rs)) ls)"

text \<open>The guarantee location detection checks for: all records sharing a key reside on
  the same worker.\<close>

definition colocated :: "('a \<Rightarrow> 'k) \<Rightarrow> ('b \<Rightarrow> 'k) \<Rightarrow> 'a DIA \<Rightarrow> 'b DIA \<Rightarrow> bool" where
  "colocated keyl keyr left right =
     (\<forall>i < length left. \<forall>j < length right. i \<noteq> j \<longrightarrow>
        (\<forall>l \<in> set (left ! i). \<forall>r \<in> set (right ! j). keyl l \<noteq> keyr r))"

text \<open>Modelled from the spec: \<^verbatim>\<open>InnerJoin(locationFlag, left, right, leftKeyFn,
  rightKeyFn, combineFn)\<close> of the missing \<^verbatim>\<open>thrill/api/inner_join.hpp\<close>. With the flag
  enabled and both sides partitioned so that all records sharing a key reside on the same
  worker, the join runs locally per partition; otherwise both sides are repartitioned by
  \<open>hash key mod numWorkers\<close> and then joined locally per worker. The engine selects the
  path from the partitioning provenance of the two operands in its operator graph
  (specification, sections 4.3 and 9); that graph and the check are not among the sources
  at hand. The model takes the local path exactly when the guarantee holds of the data: it
  gives the records the join contract asks for, and says nothing on whether the engine's
  own check is sound.\<close>

definition InnerJoin ::
  "('k \<Rightarrow> nat) \<Rightarrow> bool \<Rightarrow> 'a DIA \<Rightarrow> 'b DIA \<Rightarrow> ('a \<Rightarrow> 'k) \<Rightarrow> ('b \<Rightarrow> 'k) \<Rightarrow> ('a \<Rightarrow> 'b \<Rightarrow> 'c)
     \<Rightarrow> 'c DIA" where
  "InnerJoin h LocationDetectionFlag left right keyl keyr comb =
     (if LocationDetectionFlag \<and> colocated keyl keyr left right
      then map2 (local_join keyl keyr comb) left right
      else map2 (local_join keyl keyr comb)
             (hash_split h (length left) keyl (items left))
             (hash_split h (length left) keyr (items right)))"

text \<open>Modelled from the spec: \<^verbatim>\<open>ZipWithIndex\<close> of the missing
  \<^verbatim>\<open>thrill/api/zip_with_index.hpp\<close>, a \<^verbatim>\<open>Zip\<close> with the index numbers
  \<open>0 ... num_pages - 1\<close>, hands every record, with its position in the global sequence,
  to its function: the record first and the index second, the order in which
  \<^verbatim>\<open>RunPageRankEdgePerLine\<close> declares them.\<close>

definition ZipWithIndex :: "('a \<Rightarrow> nat \<Rightarrow> 'b) \<Rightarrow> 'a DIA \<Rightarrow> 'b DIA" where
  "ZipWithIndex f d = range_split (length d) (map2 f (items d) [0..<length (items d)])"

text \<open>Modelled from the spec: \<^verbatim>\<open>Max()\<close> of the missing \<^verbatim>\<open>thrill/api/max.hpp\<close>, the
  maximum of all records, the value-initialised record (zero) for an empty
  collection.\<close>

definition Max_DIA :: "nat DIA \<Rightarrow> nat" where
  "Max_DIA d = foldl max 0 (items d)"

text \<open>A loop \<^verbatim>\<open>for (iter = 0; iter < iterations; ++iter)\<close> whose body replaces the
  loop's state or aborts.\<close>

fun for_loop :: "nat \<Rightarrow> ('s \<Rightarrow> error + 's) \<Rightarrow> 's \<Rightarrow> error + 's" where
  "for_loop 0 body s = Inr s"
| "for_loop (Suc n) body s =
     (case body s of Inl e \<Rightarrow> Inl e | Inr s' \<Rightarrow> for_loop n body s')"

section \<open>The three PageRank variants\<close>

text \<open>The quotient \<^verbatim>\<open>p.second / static_cast<double>(p.first.size())\<close>. A zero divisor
  has no quotient among the reals; the model reports it.\<close>

definition rank_div :: "Rank \<Rightarrow> nat \<Rightarrow> error + Rank" where
  "rank_div r k = (if k = 0 then Inl DivisionByZero else Inr (r / real k))"

subsection \<open>PageRank: the index-based shape\<close>

text \<open>The function given to \<^verbatim>\<open>FlatMap\<close>.\<close>

definition PageRank_emit :: "OutgoingLinksRank \<Rightarrow> error + PageRankPair list" where
  "PageRank_emit p =
     (if length (fst p) = 0 then Inr []
      else (case rank_div (snd p) (length (fst p)) of
              Inl e \<Rightarrow> Inl e
            | Inr rank_contrib \<Rightarrow>
                Inr (map (\<lambda>tgt. \<lparr>page = tgt, rank = rank_contrib\<rparr>) (fst p))))"

definition PageRank_contribs ::
  "OutgoingLinks DIA \<Rightarrow> Rank DIA \<Rightarrow> error + PageRankPair DIA" where
  "PageRank_contribs links ranks =
     (case Zip links ranks (\<lambda>ol r. (ol, r)) of
        Inl e \<Rightarrow> Inl e
      | Inr outs_rank \<Rightarrow> FlatMap PageRank_emit outs_rank)"

definition PageRank_iter ::
  "OutgoingLinks DIA \<Rightarrow> nat \<Rightarrow> Rank DIA \<Rightarrow> error + Rank DIA" where
  "PageRank_iter links num_pages ranks =
     (case PageRank_contribs links ranks of
        Inl e \<Rightarrow> Inl e
      | Inr contribs \<Rightarrow>
          (case ReduceToIndex page
                  (\<lambda>p1 p2. \<lparr>page = page p1, rank = rank p1 + rank p2\<rparr>)
                  num_pages \<lparr>page = 0, rank = 0\<rparr> contribs of
             Inl e \<Rightarrow> Inl e
           | Inr reduced \<Rightarrow>
               Inr (Map (\<lambda>p. dampening * rank p + (1 - dampening) / real num_pages)
                      reduced)))"

definition PageRank :: "OutgoingLinks DIA \<Rightarrow> nat \<Rightarrow> nat \<Rightarrow> error + Rank DIA" where
  "PageRank links num_pages iterations =
     for_loop iterations (PageRank_iter links num_pages)
       (Generate (DIA_context links) num_pages (\<lambda>_. 1 / real num_pages))"

subsection \<open>PageRankJoinSelf\<close>

definition PageRankJoinSelf_emit :: "OutgoingLinksRank \<Rightarrow> error + PageRankStdPair list" where
  "PageRankJoinSelf_emit p =
     (if length (fst p) > 0
      then (case rank_div (snd p) (length (fst p)) of
              Inl e \<Rightarrow> Inl e
            | Inr rank_contrib \<Rightarrow> Inr (map (\<lambda>tgt. (tgt, rank_contrib)) (fst p)))
      else Inr [])"

definition PageRankJoinSelf_contribs ::
  "(PageId \<Rightarrow> nat) \<Rightarrow> bool \<Rightarrow> LinkedPage DIA \<Rightarrow> RankedPage DIA
     \<Rightarrow> error + PageRankStdPair DIA" where
  "PageRankJoinSelf_contribs h UseLocationDetection links ranks =
     FlatMap PageRankJoinSelf_emit
       (InnerJoin h UseLocationDetection links ranks fst fst (\<lambda>lp rp. (snd lp, snd rp)))"

definition PageRankJoinSelf_iter ::
  "(PageId \<Rightarrow> nat) \<Rightarrow> bool \<Rightarrow> LinkedPage DIA \<Rightarrow> RankedPage DIA \<Rightarrow> error + RankedPage DIA" where
  "PageRankJoinSelf_iter h UseLocationDetection links ranks =
     (case PageRankJoinSelf_contribs h UseLocationDetection links ranks of
        Inl e \<Rightarrow> Inl e
      | Inr contribs \<Rightarrow>
          Inr (Map (\<lambda>p. (fst p, dampening * snd p + (1 - dampening)))
                 (ReducePair h (\<lambda>p1 p2. p1 + p2) contribs)))"

definition PageRankJoinSelf ::
  "(PageId \<Rightarrow> nat) \<Rightarrow> bool \<Rightarrow> LinkedPage DIA \<Rightarrow> nat \<Rightarrow> error + RankedPage DIA" where
  "PageRankJoinSelf h UseLocationDetection links iterations =
     for_loop iterations (PageRankJoinSelf_iter h UseLocationDetection links)
       (Map (\<lambda>lp. (fst lp, 1)) links)"

subsection \<open>PageRankJoin\<close>

definition PageRankJoin_emit :: "OutgoingLinksRank \<Rightarrow> error + PageRankStdPair list" where
  "PageRankJoin_emit p =
     (if length (fst p) > 0
      then (case rank_div (snd p) (length (fst p)) of
              Inl e \<Rightarrow> Inl e
            | Inr rank_contrib \<Rightarrow> Inr (map (\<lambda>tgt. (tgt, rank_contrib)) (fst p)))
      else Inr [])"

definition PageRankJoin_contribs ::
  "(PageId \<Rightarrow> nat) \<Rightarrow> bool \<Rightarrow> LinkedPage DIA \<Rightarrow> RankedPage DIA
     \<Rightarrow> error + PageRankStdPair DIA" where
  "PageRankJoin_contribs h UseLocationDetection links ranks =
     FlatMap PageRankJoin_emit
       (InnerJoin h UseLocationDetection links ranks fst fst (\<lambda>lp rp. (snd lp, snd rp)))"

definition PageRankJoin_iter ::
  "(PageId \<Rightarrow> nat) \<Rightarrow> bool \<Rightarrow> LinkedPage DIA \<Rightarrow> nat \<Rightarrow> RankedPage DIA
     \<Rightarrow> error + RankedPage DIA" where
  "PageRankJoin_iter h UseLocationDetection links num_pages ranks =
     (case PageRankJoin_contribs h UseLocationDetection links ranks of
        Inl e \<Rightarrow> Inl e
      | Inr contribs \<Rightarrow>
          Inr (Map (\<lambda>p. (fst p, dampening * snd p + (1 - dampening) / real num_pages))
                 (ReducePair h (\<lambda>p1 p2. p1 + p2) contribs)))"

definition PageRankJoin ::
  "(PageId \<Rightarrow> nat) \<Rightarrow> bool \<Rightarrow> LinkedPage DIA \<Rightarrow> nat \<Rightarrow> nat \<Rightarrow> error + RankedPage DIA" where
  "PageRankJoin h UseLocationDetection links num_pages iterations =
     for_loop iterations (PageRankJoin_iter h UseLocationDetection links num_pages)
       (Generate (DIA_context links) num_pages (\<lambda>idx. (idx, 1 / real num_pages)))"

section \<open>examples/page\_rank/page\_rank\_run.cpp\<close>

subsection \<open>The edge-line parser\<close>

text \<open>
  \<^verbatim>\<open>strtoul\<close> belongs to the C library; it is modelled after its description in the C
  standard, for base 10 and a 64-bit \<^verbatim>\<open>unsigned long\<close>: white space is skipped, one
  sign is accepted, the longest run of digits is converted; a value out of range yields
  \<^verbatim>\<open>ULONG_MAX\<close>, a minus sign negates the value in the unsigned type; when no digit
  is found the result is zero and the end pointer is the start of the string. A pointer
  into a C string is the rest of the string from that position on; the terminating NUL
  is the end of the list.
\<close>

definition ULONG_MAX :: nat where
  "ULONG_MAX = 2 ^ 64 - 1"

definition isspace :: "char \<Rightarrow> bool" where
  "isspace c = (c \<in> {CHR '' '', CHR 0x09, CHR 0x0A, CHR 0x0B, CHR 0x0C, CHR 0x0D})"

definition isdigit :: "char \<Rightarrow> bool" where
  "isdigit c = (c \<in> set ''0123456789'')"

definition digit_value :: "char \<Rightarrow> nat" where
  "digit_value c = of_char c - 48"

fun decimal :: "nat \<Rightarrow> string \<Rightarrow> nat" where
  "decimal acc [] = acc"
| "decimal acc (c # cs) = decimal (10 * acc + digit_value c) cs"

definition strtoul :: "string \<Rightarrow> nat \<times> string" where
  "strtoul nptr =
     (let s = dropWhile isspace nptr;
          negative = (s \<noteq> [] \<and> hd s = CHR ''-'');
          s' = (if s \<noteq> [] \<and> (hd s = CHR ''-'' \<or> hd s = CHR ''+'') then tl s else s);
          digits = takeWhile isdigit s'
      in if digits = [] then (0, nptr)
         else (if decimal 0 digits > ULONG_MAX then ULONG_MAX
               else if negative then (2 ^ 64 - decimal 0 digits) mod 2 ^ 64
               else decimal 0 digits,
               dropWhile isdigit s'))"

definition c_str :: "string \<Rightarrow> string" where
  "c_str s = takeWhile (\<lambda>c. c \<noteq> CHR 0x00) s"

definition deref :: "string \<Rightarrow> char" where
  "deref p = (case p of [] \<Rightarrow> CHR 0x00 | c # _ \<Rightarrow> c)"

definition PageRankLineParser :: "string \<Rightarrow> error + PagePageLink" where
  "PageRankLineParser input =
     (case strtoul (c_str input) of
        (src_value, endptr) \<Rightarrow>
          if deref endptr \<noteq> CHR '' '' then Inl ParseError
          else (case strtoul (tl endptr) of
                  (tgt_value, endptr') \<Rightarrow>
                    if deref endptr' \<noteq> CHR 0x00 then Inl ParseError
                    else Inr \<lparr>src = src_value, tgt = tgt_value\<rparr>))"

subsection \<open>Formatting\<close>

text \<open>\<^verbatim>\<open>%zu\<close> and \<^verbatim>\<open>std::to_string(size_t)\<close>: the decimal digits of the number. The
  two conversions of a \<^verbatim>\<open>double\<close> to text (\<^verbatim>\<open>%g\<close> and \<^verbatim>\<open>std::to_string\<close>) are
  parameters of the run functions.\<close>

function to_string_size_t :: "nat \<Rightarrow> string" where
  "to_string_size_t n =
     (if n < 10 then [''0123456789'' ! n]
      else to_string_size_t (n div 10) @ [''0123456789'' ! (n mod 10)])"
  by pat_completeness auto
termination
  by (relation "measure id") auto

definition ssprintf_zu_g :: "(Rank \<Rightarrow> string) \<Rightarrow> nat \<Rightarrow> Rank \<Rightarrow> string" where
  "ssprintf_zu_g fmt_g p r = to_string_size_t p @ '': '' @ fmt_g r"

subsection \<open>The four run modes\<close>

text \<open>The collection of lines \<^verbatim>\<open>ReadLines\<close> delivers is the input of the file-based
  modes, and carries the context. The result is the collection handed to
  \<^verbatim>\<open>WriteLines\<close>, if an output path is given. The hash function of the key-partitioned
  operators, the helper \<^verbatim>\<open>common::from_str\<close> and the outcome of the graph generator for
  every page index are parameters. Timers, counters of edges and log lines do not reach
  the written collection and are left out, as is the step timing that
  \<^verbatim>\<open>PageRankJoinSelf\<close> prints.\<close>

definition RunPageRankEdgePerLine_num_pages :: "PagePageLink DIA \<Rightarrow> nat" where
  "RunPageRankEdgePerLine_num_pages input =
     (Max_DIA (Map (\<lambda>ppl. max (src ppl) (tgt ppl)) input) + 1) mod 2 ^ 64"

definition RunPageRankEdgePerLine_links :: "PagePageLink DIA \<Rightarrow> nat \<Rightarrow> error + OutgoingLinks DIA" where
  "RunPageRankEdgePerLine_links input num_pages =
     GroupToIndex src (\<lambda>r _. map tgt r) num_pages input"

definition RunPageRankEdgePerLine ::
  "(Rank \<Rightarrow> string) \<Rightarrow> string DIA \<Rightarrow> string \<Rightarrow> nat \<Rightarrow> error + string DIA option" where
  "RunPageRankEdgePerLine fmt_g lines output_path iterations =
     (case Map_or_die PageRankLineParser lines of
        Inl e \<Rightarrow> Inl e
      | Inr input \<Rightarrow>
          (case RunPageRankEdgePerLine_links input (RunPageRankEdgePerLine_num_pages input) of
             Inl e \<Rightarrow> Inl e
           | Inr links \<Rightarrow>
               (case PageRank links (RunPageRankEdgePerLine_num_pages input) iterations of
                  Inl e \<Rightarrow> Inl e
                | Inr ranks \<Rightarrow>
                    Inr (if length output_path \<noteq> 0
                         then Some (ZipWithIndex (\<lambda>r p. ssprintf_zu_g fmt_g p r) ranks)
                         else None))))"

definition RunJoinPageRankEdgePerLine_links ::
  "(PageId \<Rightarrow> nat) \<Rightarrow> PagePageLink DIA \<Rightarrow> LinkedPage DIA" where
  "RunJoinPageRankEdgePerLine_links h input =
     GroupByKey h src (\<lambda>r pid. (pid, map tgt r)) input"

definition RunJoinPageRankEdgePerLine ::
  "(PageId \<Rightarrow> nat) \<Rightarrow> (Rank \<Rightarrow> string) \<Rightarrow> string DIA \<Rightarrow> string \<Rightarrow> nat
     \<Rightarrow> error + string DIA option" where
  "RunJoinPageRankEdgePerLine h fmt_g lines output_path iterations =
     (case Map_or_die PageRankLineParser lines of
        Inl e \<Rightarrow> Inl e
      | Inr input \<Rightarrow>
          (case PageRankJoinSelf h True (RunJoinPageRankEdgePerLine_links h input) iterations of
             Inl e \<Rightarrow> Inl e
           | Inr ranks \<Rightarrow>
               Inr (if length output_path \<noteq> 0
                    then Some (Map (\<lambda>rp. ssprintf_zu_g fmt_g (fst rp) (snd rp)) ranks)
                    else None)))"

text \<open>In \<^verbatim>\<open>RunPageRankGenerated\<close> the function given to \<^verbatim>\<open>ZipWithIndex\<close> declares its
  parameters as \<^verbatim>\<open>(const PageId& p, const Rank& r)\<close>; it receives the rank and the
  index, which C++ converts: the rank to \<^verbatim>\<open>size_t\<close> (truncation), the index to
  \<^verbatim>\<open>double\<close>. The truncation is taken of the exact rank; it is the program's wherever
  the rounded rank has the same integer part (a rank that is exactly 1 here can lie just
  below 1 in \<^verbatim>\<open>double\<close>, which the program then writes as 0).\<close>

definition RunPageRankGenerated ::
  "(string \<Rightarrow> nat option) \<Rightarrow> (Rank \<Rightarrow> string) \<Rightarrow> Context \<Rightarrow> string \<Rightarrow> (nat \<Rightarrow> OutgoingLinks)
     \<Rightarrow> string \<Rightarrow> nat \<Rightarrow> error + string DIA option" where
  "RunPageRankGenerated from_str to_string_double ctx input_path GenerateOutgoing output_path
       iterations =
     (case from_str input_path of
        None \<Rightarrow> Inl FromStrError
      | Some num_pages \<Rightarrow>
          (case PageRank (Generate ctx num_pages GenerateOutgoing) num_pages iterations of
             Inl e \<Rightarrow> Inl e
           | Inr ranks \<Rightarrow>
               Inr (if length output_path \<noteq> 0
                    then Some (ZipWithIndex
                           (\<lambda>item index.
                              (\<lambda>p r. to_string_size_t p @ '': '' @ to_string_double r)
                                (nat \<lfloor>item\<rfloor>) (real index))
                           ranks)
                    else None)))"

definition RunPageRankJoinGenerated ::
  "(string \<Rightarrow> nat option) \<Rightarrow> (PageId \<Rightarrow> nat) \<Rightarrow> (Rank \<Rightarrow> string) \<Rightarrow> Context \<Rightarrow> string
     \<Rightarrow> (nat \<Rightarrow> OutgoingLinks) \<Rightarrow> string \<Rightarrow> nat \<Rightarrow> error + string DIA option" where
  "RunPageRankJoinGenerated from_str h fmt_g ctx input_path GenerateOutgoing output_path
       iterations =
     (case from_str input_path of
        None \<Rightarrow> Inl FromStrError
      | Some num_pages \<Rightarrow>
          (case PageRankJoin h True
                  (Generate ctx num_pages (\<lambda>index. (index, GenerateOutgoing index)))
                  num_pages iterations of
             Inl e \<Rightarrow> Inl e
           | Inr ranks \<Rightarrow>
               Inr (if length output_path \<noteq> 0
                    then Some (Map (\<lambda>rp. ssprintf_zu_g fmt_g (fst rp) (snd rp)) ranks)
                    else None)))"

section \<open>Notions used to state the properties\<close>

text \<open>The contribution records one pair (outgoing links, rank) gives rise to: one per
  target, each valued rank / out-degree.\<close>

definition emitted :: "OutgoingLinksRank \<Rightarrow> (PageId \<times> Rank) list" where
  "emitted p = map (\<lambda>tgt. (tgt, snd p / real (length (fst p)))) (fst p)"

text \<open>All contribution records of index-aligned link lists and ranks.\<close>

definition contributions :: "OutgoingLinks list \<Rightarrow> Rank list \<Rightarrow> (PageId \<times> Rank) list" where
  "contributions links ranks = concat (map emitted (zip links ranks))"

text \<open>The summed incoming contribution of a page: the sum of the values of the
  contribution records that land on it.\<close>

definition rawTotal :: "(PageId \<times> Rank) list \<Rightarrow> PageId \<Rightarrow> Rank" where
  "rawTotal contribs p = sum_list (map snd (filter (\<lambda>c. fst c = p) contribs))"

text \<open>The contract of the inner join on multisets: one output record for every pair of
  records with equal keys.\<close>

definition join_mset ::
  "('a \<Rightarrow> 'k) \<Rightarrow> ('b \<Rightarrow> 'k) \<Rightarrow> ('a \<Rightarrow> 'b \<Rightarrow> 'c) \<Rightarrow> 'a multiset \<Rightarrow> 'b multiset \<Rightarrow> 'c multiset" where
  "join_mset keyl keyr comb L R =
     (\<Sum>l \<in># L. image_mset (comb l) (filter_mset (\<lambda>r. keyr r = keyl l) R))"

text \<open>An index-aligned adjacency collection for \<open>num_pages\<close> pages: at least one worker,
  one link list per page, every target a page.\<close>

definition well_formed_links :: "OutgoingLinks DIA \<Rightarrow> nat \<Rightarrow> bool" where
  "well_formed_links links num_pages \<longleftrightarrow>
     0 < length links \<and> length (items links) = num_pages \<and>
     list_all (list_all (\<lambda>t. t < num_pages)) (items links)"



section \<open>Properties of the operators and of the PageRank variants\<close>

subsection \<open>Range partitions, Map and FlatMap\<close>

declare to_string_size_t.simps [simp del]

lemma length_range_split: "length (range_split W xs) = W"
  by (simp add: range_split_def)

lemma concat_range_split_prefix:
  "k \<le> W \<Longrightarrow>
   concat (map (\<lambda>i. take ((i + 1) * length xs div W - i * length xs div W)
                       (drop (i * length xs div W) xs)) [0..<k])
   = take (k * length xs div W) xs"
proof (induction k)
  case 0
  then show ?case by simp
next
  case (Suc k)
  have mono: "k * length xs div W \<le> (k + 1) * length xs div W"
    by (rule div_le_mono) simp
  have "take (k * length xs div W) xs
          @ take ((k + 1) * length xs div W - k * length xs div W)
              (drop (k * length xs div W) xs)
        = take (k * length xs div W + ((k + 1) * length xs div W - k * length xs div W)) xs"
    by (simp only: take_add)
  also have "\<dots> = take ((k + 1) * length xs div W) xs"
    using mono by simp
  finally show ?case
    using Suc by simp
qed

lemma items_range_split: "0 < W \<Longrightarrow> items (range_split W xs) = xs"
  using concat_range_split_prefix [of W W xs]
  by (simp add: items_def range_split_def)

lemma map_or_die_total:
  "(\<And>x. x \<in> set xs \<Longrightarrow> f x = Inr (g x)) \<Longrightarrow> map_or_die f xs = Inr (map g xs)"
  by (induction xs) simp_all

lemma FlatMap_total:
  assumes "\<And>x. x \<in> set (items d) \<Longrightarrow> f x = Inr (g x)"
  shows "FlatMap f d = Inr (map (\<lambda>part. concat (map g part)) d)"
proof -
  have "(case map_or_die f part of Inl e \<Rightarrow> Inl e | Inr yss \<Rightarrow> Inr (concat yss))
          = Inr (concat (map g part))" if "part \<in> set d" for part
  proof -
    have "map_or_die f part = Inr (map g part)"
      using that assms by (intro map_or_die_total) (auto simp: items_def)
    then show ?thesis by simp
  qed
  then show ?thesis
    unfolding FlatMap_def by (intro map_or_die_total) 
qed

lemma items_flat_parts: "items (map (\<lambda>part. concat (map g part)) d) = concat (map g (items d))"
  by (induction d) (simp_all add: items_def)

lemma items_Map: "items (Map f d) = map f (items d)"
  by (simp add: items_def Map_def map_concat)

lemma length_Map: "length (Map f d) = length d"
  by (simp add: Map_def)

subsection \<open>One iteration of the index-based shape\<close>

lemma PageRank_emit_eq:
  "PageRank_emit p = Inr (map (\<lambda>tgt. \<lparr>page = tgt, rank = snd p / real (length (fst p))\<rparr>) (fst p))"
  by (simp add: PageRank_emit_def rank_div_def)

lemma PageRankJoin_emit_eq:
  "PageRankJoin_emit p = Inr (map (\<lambda>tgt. (tgt, snd p / real (length (fst p)))) (fst p))"
  by (simp add: PageRankJoin_emit_def rank_div_def)

lemma PageRankJoinSelf_emit_eq:
  "PageRankJoinSelf_emit p = Inr (map (\<lambda>tgt. (tgt, snd p / real (length (fst p)))) (fst p))"
  by (simp add: PageRankJoinSelf_emit_def rank_div_def)

lemma foldl_PageRankPair:
  "foldl (\<lambda>p1 p2. \<lparr>page = page p1, rank = rank p1 + rank p2\<rparr>) x xs
     = \<lparr>page = page x, rank = rank x + sum_list (map rank xs)\<rparr>"
  by (induction xs arbitrary: x) (simp_all add: add.assoc)

lemma rank_reduce_items:
  "rank (reduce_items (\<lambda>p1 p2. \<lparr>page = page p1, rank = rank p1 + rank p2\<rparr>)
           \<lparr>page = 0, rank = 0\<rparr> xs) = sum_list (map rank xs)"
  by (cases xs) (simp_all add: foldl_PageRankPair)

lemma PageRank_contribs_eq:
  assumes "length (items links) = length (items ranks)"
  shows "PageRank_contribs links ranks =
     Inr (map (\<lambda>part. concat (map (\<lambda>p. map (\<lambda>c. \<lparr>page = fst c, rank = snd c\<rparr>) (emitted p)) part))
            (range_split (length links) (zip (items links) (items ranks))))"
  using assms
  by (simp add: PageRank_contribs_def Zip_def zip_map_fst_snd
      FlatMap_total [where g = "\<lambda>p. map (\<lambda>c. \<lparr>page = fst c, rank = snd c\<rparr>) (emitted p)"]
      PageRank_emit_eq emitted_def comp_def)

lemma Map_range_split: "Map f (range_split W xs) = range_split W (map f xs)"
  by (simp add: Map_def range_split_def take_map drop_map)

lemma items_PageRank_contribs:
  assumes "length (items links) = length (items ranks)" and "0 < length links"
    and "PageRank_contribs links ranks = Inr contribs"
  shows "map (\<lambda>c. (page c, rank c)) (items contribs) = contributions (items links) (items ranks)"
    and "length contribs = length links"
proof -
  have c: "contribs = map (\<lambda>part. concat (map (\<lambda>p. map (\<lambda>c. \<lparr>page = fst c, rank = snd c\<rparr>) (emitted p)) part))
            (range_split (length links) (zip (items links) (items ranks)))"
    using PageRank_contribs_eq [OF assms(1)] assms(3) by simp
  show "length contribs = length links"
    by (simp add: c length_range_split)
  show "map (\<lambda>c. (page c, rank c)) (items contribs) = contributions (items links) (items ranks)"
    unfolding c items_flat_parts items_range_split [OF assms(2)] contributions_def
    by (simp add: map_concat comp_def)
qed

lemma rawTotal_records:
  "sum_list (map rank (filter (\<lambda>x. page x = i) cs)) = rawTotal (map (\<lambda>c. (page c, rank c)) cs) i"
  by (induction cs) (simp_all add: rawTotal_def)

lemma PageRank_iter_eq:
  assumes len: "length (items links) = length (items ranks)" and W: "0 < length links"
    and keys: "\<forall>c \<in> set (contributions (items links) (items ranks)). fst c < num_pages"
  shows "PageRank_iter links num_pages ranks =
     Inr (range_split (length links)
            (map (\<lambda>i. dampening * rawTotal (contributions (items links) (items ranks)) i
                        + (1 - dampening) / real num_pages) [0..<num_pages]))"
proof -
  obtain contribs where c: "PageRank_contribs links ranks = Inr contribs"
    using PageRank_contribs_eq [OF len] by blast
  note ic = items_PageRank_contribs [OF len W c]
  have "list_all (\<lambda>x. page x < num_pages) (items contribs)"
    using keys ic(1) [symmetric] by (auto simp: list_all_iff)
  then show ?thesis
    by (simp add: PageRank_iter_def c ReduceToIndex_def Map_range_split ic(2)
        rank_reduce_items rawTotal_records ic(1) comp_def)
qed

subsection \<open>Hash partitions and the inner join\<close>

lemma length_hash_split: "length (hash_split h W key xs) = W"
  by (simp add: hash_split_def)

lemma mset_hash_split_prefix:
  "mset (concat (map (\<lambda>w. filter (\<lambda>x. g x = w) xs) [0..<k]))
     = filter_mset (\<lambda>x. g x < k) (mset xs)"
proof (induction k)
  case 0
  then show ?case by simp
next
  case (Suc k)
  have "filter_mset (\<lambda>x. g x < k) (mset xs) + filter_mset (\<lambda>x. g x = k) (mset xs)
          = filter_mset (\<lambda>x. g x < Suc k) (mset xs)"
    by (rule multiset_eqI) auto
  with Suc show ?case by simp
qed

lemma mset_items_hash_split:
  "0 < W \<Longrightarrow> mset (items (hash_split h W key xs)) = mset xs"
  using mset_hash_split_prefix [of "\<lambda>x. h (key x) mod W" xs W]
  by (simp add: items_def hash_split_def)

lemma colocated_hash_split:
  "colocated keyl keyr (hash_split h W keyl ls) (hash_split h W keyr rs)"
  by (auto simp: colocated_def hash_split_def)

lemma mset_local_join:
  "mset (local_join keyl keyr comb ls rs) = join_mset keyl keyr comb (mset ls) (mset rs)"
  by (induction ls) (simp_all add: local_join_def join_mset_def)

lemma join_mset_add_left:
  "join_mset keyl keyr comb (L1 + L2) R = join_mset keyl keyr comb L1 R + join_mset keyl keyr comb L2 R"
  by (simp add: join_mset_def)

lemma join_mset_add_right:
  "join_mset keyl keyr comb L (R1 + R2) = join_mset keyl keyr comb L R1 + join_mset keyl keyr comb L R2"
  by (induction L) (simp_all add: join_mset_def)

lemma join_mset_disjoint:
  "(\<And>l r. l \<in># L \<Longrightarrow> r \<in># R \<Longrightarrow> keyl l \<noteq> keyr r) \<Longrightarrow> join_mset keyl keyr comb L R = {#}"
proof (induction L)
  case empty
  then show ?case by (simp add: join_mset_def)
next
  case (add l L)
  have "filter_mset (\<lambda>r. keyr r = keyl l) R = {#}"
    using add.prems [of l] by (auto dest: sym)
  moreover have "join_mset keyl keyr comb L R = {#}"
    using add by simp
  ultimately show ?case
    by (simp add: join_mset_def)
qed

lemma colocated_Cons:
  assumes "colocated keyl keyr (l # left) (r # right)"
  shows "colocated keyl keyr left right"
    and "\<And>x y. x \<in> set l \<Longrightarrow> y \<in> set (concat right) \<Longrightarrow> keyl x \<noteq> keyr y"
    and "\<And>x y. x \<in> set (concat left) \<Longrightarrow> y \<in> set r \<Longrightarrow> keyl x \<noteq> keyr y"
proof -
  show "colocated keyl keyr left right"
    unfolding colocated_def
  proof (intro allI impI)
    fix i j assume "i < length left" "j < length right" "i \<noteq> j"
    then show "\<forall>x\<in>set (left ! i). \<forall>y\<in>set (right ! j). keyl x \<noteq> keyr y"
      using assms [unfolded colocated_def, rule_format, of "Suc i" "Suc j"] by simp
  qed
next
  fix x y assume x: "x \<in> set l" and "y \<in> set (concat right)"
  then obtain ys where "ys \<in> set right" "y \<in> set ys"
    by auto
  then obtain j where "j < length right" "y \<in> set (right ! j)"
    by (metis in_set_conv_nth)
  then show "keyl x \<noteq> keyr y"
    using assms [unfolded colocated_def, rule_format, of 0 "Suc j"] x by simp
next
  fix x y assume "x \<in> set (concat left)" and y: "y \<in> set r"
  then obtain xs where "xs \<in> set left" "x \<in> set xs"
    by auto
  then obtain i where "i < length left" "x \<in> set (left ! i)"
    by (metis in_set_conv_nth)
  then show "keyl x \<noteq> keyr y"
    using assms [unfolded colocated_def, rule_format, of "Suc i" 0] y by simp
qed

lemma mset_local_joins:
  "length left = length right \<Longrightarrow> colocated keyl keyr left right \<Longrightarrow>
   mset (concat (map2 (local_join keyl keyr comb) left right))
     = join_mset keyl keyr comb (mset (concat left)) (mset (concat right))"
proof (induction left right rule: list_induct2)
  case Nil
  then show ?case by (simp add: join_mset_def)
next
  case (Cons l left r right)
  note co = colocated_Cons [OF Cons.prems]
  have "join_mset keyl keyr comb (mset l) (mset (concat right)) = {#}"
    by (rule join_mset_disjoint) (use co(2) in auto)
  moreover have "join_mset keyl keyr comb (mset (concat left)) (mset r) = {#}"
    by (rule join_mset_disjoint) (use co(3) in auto)
  ultimately show ?case
    using Cons.IH [OF co(1)]
    by (simp add: mset_local_join join_mset_add_left join_mset_add_right)
qed

lemma mset_items_InnerJoin:
  assumes "0 < length left" and "length right = length left"
  shows "mset (items (InnerJoin h flag left right keyl keyr comb))
           = join_mset keyl keyr comb (mset (items left)) (mset (items right))"
proof (cases "flag \<and> colocated keyl keyr left right")
  case True
  then show ?thesis
    using mset_local_joins [of left right keyl keyr comb] assms
    by (simp add: InnerJoin_def items_def)
next
  case False
  have "InnerJoin h flag left right keyl keyr comb
          = map2 (local_join keyl keyr comb)
              (hash_split h (length left) keyl (items left))
              (hash_split h (length left) keyr (items right))"
    using False by (auto simp: InnerJoin_def)
  then have "mset (items (InnerJoin h flag left right keyl keyr comb))
          = join_mset keyl keyr comb
              (mset (concat (hash_split h (length left) keyl (items left))))
              (mset (concat (hash_split h (length left) keyr (items right))))"
    by (simp add: items_def [of "map2 _ _ _"] mset_local_joins
        length_hash_split colocated_hash_split)
  then show ?thesis
    by (simp add: mset_items_hash_split [OF assms(1), unfolded items_def] items_def)
qed

lemma length_InnerJoin:
  "length right = length left \<Longrightarrow> length (InnerJoin h flag left right keyl keyr comb) = length left"
  by (simp add: InnerJoin_def length_hash_split)

subsection \<open>ReducePair\<close>

lemma keys_insert_reduce:
  "fst ` set (insert_reduce comb kv tbl) = insert (fst kv) (fst ` set tbl)"
  by (induction tbl) auto

lemma distinct_insert_reduce:
  "distinct (map fst tbl) \<Longrightarrow> distinct (map fst (insert_reduce comb kv tbl))"
proof (induction tbl)
  case Nil
  then show ?case by simp
next
  case (Cons e tbl)
  then show ?case
    using keys_insert_reduce [of comb kv tbl] by (auto simp: image_iff)
qed

lemma map_of_insert_reduce:
  "map_of (insert_reduce (\<lambda>p1 p2. p1 + p2) (k, v) tbl)
     = (map_of tbl)(k \<mapsto> (case map_of tbl k of None \<Rightarrow> v | Some u \<Rightarrow> u + v))"
  by (induction tbl) (auto simp: fun_eq_iff)

lemma reduce_by_key_snoc:
  "reduce_by_key comb (xs @ [x]) = insert_reduce comb x (reduce_by_key comb xs)"
  by (simp add: reduce_by_key_def)

lemma rawTotal_snoc:
  "rawTotal (xs @ [(k, v)]) k' = rawTotal xs k' + (if k = k' then v else 0)"
  by (simp add: rawTotal_def)

lemma rawTotal_absent: "k \<notin> fst ` set xs \<Longrightarrow> rawTotal xs k = 0"
proof -
  assume "k \<notin> fst ` set xs"
  then have "filter (\<lambda>c. fst c = k) xs = []"
    by (auto simp: filter_empty_conv)
  then show ?thesis by (simp add: rawTotal_def)
qed

lemma reduce_by_key_inv:
  "distinct (map fst (reduce_by_key comb xs)) \<and> fst ` set (reduce_by_key comb xs) = fst ` set xs"
proof (induction xs rule: rev_induct)
  case Nil
  then show ?case by (simp add: reduce_by_key_def)
next
  case (snoc x xs)
  then show ?case
    by (simp add: reduce_by_key_snoc distinct_insert_reduce keys_insert_reduce)
qed

lemma distinct_reduce_by_key: "distinct (map fst (reduce_by_key comb xs))"
  using reduce_by_key_inv [of comb xs] by (rule conjunct1)

lemma keys_reduce_by_key: "fst ` set (reduce_by_key comb xs) = fst ` set xs"
  using reduce_by_key_inv [of comb xs] by (rule conjunct2)

lemma map_of_reduce_by_key:
  "map_of (reduce_by_key (\<lambda>p1 p2. p1 + p2) xs) k
     = (if k \<in> fst ` set xs then Some (rawTotal xs k) else None)"
proof (induction xs rule: rev_induct)
  case Nil
  then show ?case by (simp add: reduce_by_key_def)
next
  case (snoc x xs)
  obtain k' v where x: "x = (k', v)" by (cases x)
  show ?case
    using snoc rawTotal_absent [of k' xs]
    by (auto simp: x reduce_by_key_snoc map_of_insert_reduce rawTotal_snoc)
qed

lemma set_reduce_by_key:
  "set (reduce_by_key (\<lambda>p1 p2. p1 + p2) xs) = (\<lambda>k. (k, rawTotal xs k)) ` fst ` set xs"
proof -
  have d: "distinct (map fst (reduce_by_key (\<lambda>p1 p2. p1 + p2) xs))"
    by (rule distinct_reduce_by_key)
  have "(k, v) \<in> set (reduce_by_key (\<lambda>p1 p2. p1 + p2) xs)
          \<longleftrightarrow> (k, v) \<in> (\<lambda>k. (k, rawTotal xs k)) ` fst ` set xs" for k v
    unfolding map_of_eq_Some_iff [OF d, symmetric] map_of_reduce_by_key by auto
  then show ?thesis by auto
qed

lemma rawTotal_filter:
  "P k \<Longrightarrow> rawTotal (filter (\<lambda>x. P (fst x)) xs) k = rawTotal xs k"
proof -
  assume "P k"
  then have "filter (\<lambda>c. fst c = k) (filter (\<lambda>x. P (fst x)) xs) = filter (\<lambda>c. fst c = k) xs"
    by (induction xs) auto
  then show ?thesis by (simp add: rawTotal_def)
qed

lemma set_reduce_parts:
  "set (concat (map (\<lambda>w. reduce_by_key (\<lambda>p1 p2. p1 + p2) (filter (\<lambda>x. g (fst x) = w) xs)) [0..<k]))
     = (\<lambda>p. (p, rawTotal xs p)) ` {p \<in> fst ` set xs. g p < k}"
proof -
  have part: "set (reduce_by_key (\<lambda>p1 p2. p1 + p2) (filter (\<lambda>x. g (fst x) = w) xs))
          = (\<lambda>p. (p, rawTotal xs p)) ` {p \<in> fst ` set xs. g p = w}" for w
  proof -
    have "rawTotal (filter (\<lambda>x. g (fst x) = w) xs) p = rawTotal xs p" if "g p = w" for p
      using rawTotal_filter [of "\<lambda>p. g p = w" p xs] that by simp
    moreover have "fst ` set (filter (\<lambda>x. g (fst x) = w) xs) = {p \<in> fst ` set xs. g p = w}"
      by (auto simp: image_iff)
    ultimately show ?thesis
      unfolding set_reduce_by_key by (auto simp: image_iff)
  qed
  have "set (concat (map (\<lambda>w. reduce_by_key (\<lambda>p1 p2. p1 + p2) (filter (\<lambda>x. g (fst x) = w) xs)) [0..<k]))
          = (\<Union>w \<in> {0..<k}. (\<lambda>p. (p, rawTotal xs p)) ` {p \<in> fst ` set xs. g p = w})"
    by (simp add: part)
  also have "\<dots> = (\<lambda>p. (p, rawTotal xs p)) ` {p \<in> fst ` set xs. g p < k}"
  proof (intro set_eqI iffI)
    fix y assume "y \<in> (\<Union>w \<in> {0..<k}. (\<lambda>p. (p, rawTotal xs p)) ` {p \<in> fst ` set xs. g p = w})"
    then show "y \<in> (\<lambda>p. (p, rawTotal xs p)) ` {p \<in> fst ` set xs. g p < k}"
      by auto
  next
    fix y assume "y \<in> (\<lambda>p. (p, rawTotal xs p)) ` {p \<in> fst ` set xs. g p < k}"
    then obtain p where p: "y = (p, rawTotal xs p)" "p \<in> fst ` set xs" "g p < k"
      by blast
    then have "y \<in> (\<lambda>p. (p, rawTotal xs p)) ` {q \<in> fst ` set xs. g q = g p}"
      by blast
    with p(3) show "y \<in> (\<Union>w \<in> {0..<k}. (\<lambda>p. (p, rawTotal xs p)) ` {p \<in> fst ` set xs. g p = w})"
      by (intro UN_I [of "g p"]) simp_all
  qed
  finally show ?thesis .
qed

lemma distinct_reduce_parts:
  "distinct (map fst (concat (map (\<lambda>w. reduce_by_key comb (filter (\<lambda>x. g (fst x) = w) xs)) [0..<k])))"
proof (induction k)
  case 0
  then show ?case by simp
next
  case (Suc k)
  let ?T = "\<lambda>w. reduce_by_key comb (filter (\<lambda>x. g (fst x) = w) xs)"
  have keys: "g p = w" if "p \<in> fst ` set (?T w)" for w p
  proof -
    have "p \<in> fst ` set (filter (\<lambda>x. g (fst x) = w) xs)"
      using that unfolding keys_reduce_by_key .
    then show ?thesis by auto
  qed
  have below: "g p < k" if "p \<in> fst ` set (concat (map ?T [0..<k]))" for p
  proof -
    from that obtain e where e: "e \<in> set (concat (map ?T [0..<k]))" "p = fst e"
      by blast
    then obtain w where "w < k" "e \<in> set (?T w)"
      by auto
    then have "p \<in> fst ` set (?T w)"
      using e(2) by blast
    then show ?thesis
      using keys \<open>w < k\<close> by blast
  qed
  have disj: "fst ` set (concat (map ?T [0..<k])) \<inter> fst ` set (?T k) = {}"
  proof (rule ccontr)
    assume "fst ` set (concat (map ?T [0..<k])) \<inter> fst ` set (?T k) \<noteq> {}"
    then obtain p where "p \<in> fst ` set (concat (map ?T [0..<k]))" "p \<in> fst ` set (?T k)"
      by blast
    then have "g p < k" "g p = k"
      using below keys by blast+
    then show False by simp
  qed
  have dk: "distinct (map fst (?T k))"
    by (rule distinct_reduce_by_key)
  have split: "concat (map ?T [0..<Suc k]) = concat (map ?T [0..<k]) @ ?T k"
    by simp
  show ?case
    unfolding split map_append distinct_append set_map
    using Suc dk disj by blast
qed

lemma set_items_ReducePair:
  assumes "0 < length d"
  shows "set (items (ReducePair h (\<lambda>p1 p2. p1 + p2) d))
           = (\<lambda>p. (p, rawTotal (items d) p)) ` fst ` set (items d)"
  using set_reduce_parts [of "\<lambda>p. h p mod length d" "items d" "length d"] assms
  by (simp add: ReducePair_def hash_split_def items_def [of "map _ _"])

lemma distinct_items_ReducePair:
  "distinct (map fst (items (ReducePair h comb d)))"
  using distinct_reduce_parts [of comb "\<lambda>p. h p mod length d" "items d" "length d"]
  by (simp add: ReducePair_def hash_split_def items_def [of "map _ _"] comp_def)

lemma length_ReducePair: "length (ReducePair h comb d) = length d"
  by (simp add: ReducePair_def hash_split_def)

lemma rawTotal_mset:
  "rawTotal xs k = sum_mset (image_mset snd (filter_mset (\<lambda>c. fst c = k) (mset xs)))"
  by (simp add: rawTotal_def flip: sum_mset_sum_list)

lemma mset_items_ReducePair_cong:
  fixes d d' :: "(PageId \<times> Rank) DIA"
  assumes "0 < length d" "0 < length d'" "mset (items d) = mset (items d')"
  shows "mset (items (ReducePair h (\<lambda>p1 p2. p1 + p2) d))
           = mset (items (ReducePair h (\<lambda>p1 p2. p1 + p2) d'))"
proof -
  have "rawTotal (items d) = rawTotal (items d')"
    by (rule ext) (simp add: rawTotal_mset assms(3))
  moreover have "set (items d) = set (items d')"
    using assms(3) by (rule mset_eq_setD)
  ultimately have "set (items (ReducePair h (\<lambda>p1 p2. p1 + p2) d))
                     = set (items (ReducePair h (\<lambda>p1 p2. p1 + p2) d'))"
    unfolding set_items_ReducePair [OF assms(1)] set_items_ReducePair [OF assms(2)] by simp
  moreover have "distinct (items (ReducePair h (\<lambda>p1 p2. p1 + p2) d))"
    "distinct (items (ReducePair h (\<lambda>p1 p2. p1 + p2) d'))"
    using distinct_items_ReducePair distinct_map by blast+
  ultimately show ?thesis
    by (simp add: set_eq_iff_mset_eq_distinct)
qed

subsection \<open>Loops, and the rank mass of the index-based shape\<close>

lemma for_loop_invariant:
  assumes "I s" and "\<And>s. I s \<Longrightarrow> \<exists>s'. body s = Inr s' \<and> I s'"
  shows "\<exists>s'. for_loop n body s = Inr s' \<and> I s'"
  using assms(1)
proof (induction n arbitrary: s)
  case 0
  then show ?case by simp
next
  case (Suc n)
  from assms(2) [OF Suc.prems] obtain s' where "body s = Inr s'" "I s'"
    by blast
  then show ?case
    using Suc.IH [of s'] by simp
qed

lemma for_loop_related:
  assumes "R s t"
    and "\<And>s t. R s t \<Longrightarrow> \<exists>s' t'. body1 s = Inr s' \<and> body2 t = Inr t' \<and> R s' t'"
  shows "\<exists>s' t'. for_loop n body1 s = Inr s' \<and> for_loop n body2 t = Inr t' \<and> R s' t'"
  using assms(1)
proof (induction n arbitrary: s t)
  case 0
  then show ?case by simp
next
  case (Suc n)
  from assms(2) [OF Suc.prems] obtain s' t' where "body1 s = Inr s'" "body2 t = Inr t'" "R s' t'"
    by blast
  then show ?case
    using Suc.IH [of s' t'] by simp
qed

lemma sum_list_indicator:
  "k < n \<Longrightarrow> (\<Sum>i\<leftarrow>[0..<n]. if k = i then (v::real) else 0) = v"
  by (simp add: interv_sum_list_conv_sum_set_nat)

lemma sum_rawTotal:
  "\<forall>c \<in> set cs. fst c < n \<Longrightarrow> (\<Sum>i\<leftarrow>[0..<n]. rawTotal cs i) = sum_list (map snd cs)"
proof (induction cs)
  case Nil
  then show ?case by (simp add: rawTotal_def)
next
  case (Cons c cs)
  have "rawTotal (c # cs) i = (if fst c = i then snd c else 0) + rawTotal cs i" for i
    by (simp add: rawTotal_def)
  then have "(\<Sum>i\<leftarrow>[0..<n]. rawTotal (c # cs) i)
               = (\<Sum>i\<leftarrow>[0..<n]. if fst c = i then snd c else 0) + (\<Sum>i\<leftarrow>[0..<n]. rawTotal cs i)"
    by (simp add: sum_list_addf)
  then show ?case
    using Cons sum_list_indicator [of "fst c" n "snd c"] by simp
qed

lemma sum_emitted: "fst p \<noteq> [] \<Longrightarrow> sum_list (map snd (emitted p)) = snd p"
  by (simp add: emitted_def comp_def sum_list_triv)

lemma sum_contributions:
  "length links = length ranks \<Longrightarrow> \<forall>ol \<in> set links. ol \<noteq> [] \<Longrightarrow>
   sum_list (map snd (contributions links ranks)) = sum_list ranks"
proof (induction links ranks rule: list_induct2)
  case Nil
  then show ?case by (simp add: contributions_def)
next
  case (Cons ol links r ranks)
  then show ?case
    using sum_emitted [of "(ol, r)"] by (simp add: contributions_def)
qed

lemma keys_contributions:
  "c \<in> set (contributions links ranks) \<Longrightarrow> \<exists>ol \<in> set links. fst c \<in> set ol"
  by (auto simp: contributions_def emitted_def dest: set_zip_leftD)

lemma items_Generate: "0 < num_workers ctx \<Longrightarrow> items (Generate ctx n f) = map f [0..<n]"
  by (simp add: Generate_def items_range_split)

lemma length_Generate: "length (Generate ctx n f) = num_workers ctx"
  by (simp add: Generate_def length_range_split)

lemma PageRank_iter_step:
  assumes wf: "well_formed_links links num_pages" and len: "length (items ranks) = num_pages"
  shows "PageRank_iter links num_pages ranks =
     Inr (range_split (length links)
            (map (\<lambda>i. dampening * rawTotal (contributions (items links) (items ranks)) i
                        + (1 - dampening) / real num_pages) [0..<num_pages]))"
proof (rule PageRank_iter_eq)
  show "length (items links) = length (items ranks)" "0 < length links"
    using wf len by (simp_all add: well_formed_links_def)
  show "\<forall>c\<in>set (contributions (items links) (items ranks)). fst c < num_pages"
  proof
    fix c assume "c \<in> set (contributions (items links) (items ranks))"
    then obtain ol where "ol \<in> set (items links)" "fst c \<in> set ol"
      using keys_contributions by blast
    then show "fst c < num_pages"
      using wf by (auto simp: well_formed_links_def list_all_iff)
  qed
qed

lemma PageRank_total:
  assumes wf: "well_formed_links links num_pages"
  shows "\<exists>ranks. PageRank links num_pages iterations = Inr ranks \<and> length (items ranks) = num_pages"
  unfolding PageRank_def
proof (rule for_loop_invariant [where I = "\<lambda>ranks. length (items ranks) = num_pages"])
  show "length (items (Generate (DIA_context links) num_pages (\<lambda>_. 1 / real num_pages))) = num_pages"
    using wf by (simp add: items_Generate DIA_context_def well_formed_links_def)
next
  fix ranks :: "Rank DIA" assume "length (items ranks) = num_pages"
  then show "\<exists>s'. PageRank_iter links num_pages ranks = Inr s' \<and> length (items s') = num_pages"
    using wf by (simp add: PageRank_iter_step items_range_split well_formed_links_def)
qed

lemma PageRank_sum:
  assumes wf: "well_formed_links links num_pages" and pos: "0 < num_pages"
    and out: "\<forall>ol \<in> set (items links). ol \<noteq> []"
  shows "\<exists>ranks. PageRank links num_pages iterations = Inr ranks \<and>
           length (items ranks) = num_pages \<and> sum_list (items ranks) = 1"
  unfolding PageRank_def
proof (rule for_loop_invariant
    [where I = "\<lambda>ranks. length (items ranks) = num_pages \<and> sum_list (items ranks) = 1"])
  show "length (items (Generate (DIA_context links) num_pages (\<lambda>_. 1 / real num_pages))) = num_pages
      \<and> sum_list (items (Generate (DIA_context links) num_pages (\<lambda>_. 1 / real num_pages))) = 1"
    using wf pos by (simp add: items_Generate DIA_context_def well_formed_links_def sum_list_triv)
next
  fix ranks :: "Rank DIA"
  assume inv: "length (items ranks) = num_pages \<and> sum_list (items ranks) = 1"
  let ?C = "contributions (items links) (items ranks)"
  have keys: "\<forall>c\<in>set ?C. fst c < num_pages"
  proof
    fix c assume "c \<in> set ?C"
    then obtain ol where "ol \<in> set (items links)" "fst c \<in> set ol"
      using keys_contributions by blast
    then show "fst c < num_pages"
      using wf by (auto simp: well_formed_links_def list_all_iff)
  qed
  have "sum_list (map snd ?C) = 1"
    using sum_contributions [of "items links" "items ranks"] wf inv out
    by (simp add: well_formed_links_def)
  then have "(\<Sum>i\<leftarrow>[0..<num_pages]. dampening * rawTotal ?C i + (1 - dampening) / real num_pages) = 1"
    using pos sum_rawTotal [OF keys]
    by (simp add: sum_list_addf sum_list_triv sum_list_const_mult)
  then show "\<exists>s'. PageRank_iter links num_pages ranks = Inr s' \<and>
                 length (items s') = num_pages \<and> sum_list (items s') = 1"
    using wf inv by (simp add: PageRank_iter_step items_range_split well_formed_links_def)
qed

subsection \<open>The contribution stage of the join shapes\<close>

lemma PageRankJoin_contribs_eq:
  "PageRankJoin_contribs h flag links ranks =
     Inr (map (\<lambda>part. concat (map emitted part))
            (InnerJoin h flag links ranks fst fst (\<lambda>lp rp. (snd lp, snd rp))))"
  unfolding PageRankJoin_contribs_def
  by (rule FlatMap_total) (simp add: PageRankJoin_emit_eq emitted_def)

lemma PageRankJoinSelf_contribs_eq:
  "PageRankJoinSelf_contribs h flag links ranks =
     Inr (map (\<lambda>part. concat (map emitted part))
            (InnerJoin h flag links ranks fst fst (\<lambda>lp rp. (snd lp, snd rp))))"
  unfolding PageRankJoinSelf_contribs_def
  by (rule FlatMap_total) (simp add: PageRankJoinSelf_emit_eq emitted_def)

text \<open>The contribution stage of the join shapes, as a multiset.\<close>

lemma join_contribs_mset:
  assumes "0 < length links" "length ranks = length links"
  shows "mset (items (map (\<lambda>part. concat (map emitted part))
            (InnerJoin h flag links ranks fst fst (\<lambda>lp rp. (snd lp, snd rp)))))
         = (\<Sum>p \<in># join_mset fst fst (\<lambda>lp rp. (snd lp, snd rp)) (mset (items links)) (mset (items ranks)).
              mset (emitted p))"
proof -
  have "mset (concat (map f zs)) = (\<Sum>z\<in>#mset zs. mset (f z))" for zs :: "OutgoingLinksRank list" and f :: "OutgoingLinksRank \<Rightarrow> (PageId \<times> Rank) list"
    by (induction zs) simp_all
  then show ?thesis
    unfolding items_flat_parts
    by (simp add: mset_items_InnerJoin [OF assms])
qed

lemma length_join_contribs:
  "length ranks = length links \<Longrightarrow>
   length (map (\<lambda>part. concat (map emitted part))
            (InnerJoin h flag links ranks fst fst (\<lambda>lp rp. (snd lp, snd rp)))) = length links"
  by (simp add: length_InnerJoin)

lemma mset_items_Map: "mset (items (Map f d)) = image_mset f (mset (items d))"
  by (simp add: items_Map)

text \<open>One iteration of the join shapes respects equality of the rank multisets, whatever
  the location detection flags are.\<close>

lemma PageRankJoin_iter_cong:
  assumes W: "0 < length links" and l1: "length r1 = length links" and l2: "length r2 = length links"
    and eq: "mset (items r1) = mset (items r2)"
  shows "\<exists>r1' r2'. PageRankJoin_iter h f1 links n r1 = Inr r1' \<and> PageRankJoin_iter h f2 links n r2 = Inr r2'
           \<and> length r1' = length links \<and> length r2' = length links
           \<and> mset (items r1') = mset (items r2')"
proof -
  let ?c1 = "map (\<lambda>part. concat (map emitted part))
            (InnerJoin h f1 links r1 fst fst (\<lambda>lp rp. (snd lp, snd rp)))"
  let ?c2 = "map (\<lambda>part. concat (map emitted part))
            (InnerJoin h f2 links r2 fst fst (\<lambda>lp rp. (snd lp, snd rp)))"
  have c: "mset (items ?c1) = mset (items ?c2)"
    unfolding join_contribs_mset [OF W l1] join_contribs_mset [OF W l2] eq ..
  have lc: "length ?c1 = length links" "length ?c2 = length links"
    using l1 l2 by (simp_all add: length_InnerJoin)
  have "mset (items (ReducePair h (\<lambda>p1 p2. p1 + p2) ?c1)) = mset (items (ReducePair h (\<lambda>p1 p2. p1 + p2) ?c2))"
    by (rule mset_items_ReducePair_cong) (use W lc c in simp_all)
  then show ?thesis
    by (simp add: PageRankJoin_iter_def PageRankJoin_contribs_eq length_Map length_ReducePair
        lc mset_items_Map del: length_map)
qed

subsection \<open>The join shape against the index-based shape\<close>

lemma mset_concat_map: "mset (concat (map f zs)) = (\<Sum>z\<in>#mset zs. mset (f z))"
  by (induction zs) simp_all

lemma filter_key_zip_upt:
  "length ys = n \<Longrightarrow> i < n \<Longrightarrow> filter (\<lambda>r. fst r = i) (zip [0..<n] ys) = [(i, ys ! i)]"
proof (induction ys arbitrary: n rule: rev_induct)
  case Nil
  then show ?case by simp
next
  case (snoc y ys)
  then obtain m where n: "n = Suc m" and m: "length ys = m"
    by (cases n) auto
  have none: "filter (\<lambda>r. fst r = m) (zip [0..<m] ys) = []"
    by (auto simp: filter_empty_conv dest: set_zip_leftD)
  show ?case
  proof (cases "i = m")
    case True
    then show ?thesis using m none by (simp add: n nth_append)
  next
    case False
    then have "i < m" using snoc.prems n by simp
    then show ?thesis
      using snoc.IH [OF m] m False by (simp add: n nth_append)
  qed
qed

lemma local_join_index_aligned:
  assumes "length xs = n" "length ys = n"
  shows "local_join fst fst (\<lambda>lp rp. (snd lp, snd rp)) (zip [0..<n] xs) (zip [0..<n] ys) = zip xs ys"
proof -
  have eq: "map (\<lambda>l. map (\<lambda>rp. (snd l, snd rp)) (filter (\<lambda>r. fst r = fst l) (zip [0..<n] ys))) (zip [0..<n] xs)
          = map (\<lambda>l. [(snd l, ys ! fst l)]) (zip [0..<n] xs)"
    by (rule map_cong [OF refl]) (use assms in \<open>auto simp: filter_key_zip_upt dest: set_zip_leftD\<close>)
  have "local_join fst fst (\<lambda>lp rp. (snd lp, snd rp)) (zip [0..<n] xs) (zip [0..<n] ys)
          = map (\<lambda>l. (snd l, ys ! fst l)) (zip [0..<n] xs)"
    unfolding local_join_def by (simp only: eq concat_map_singleton)
  also have "\<dots> = zip xs ys"
    using assms by (intro nth_equalityI) simp_all
  finally show ?thesis .
qed

lemma targets_contributions:
  assumes "length links = length ranks" "ol \<in> set links" "p \<in> set ol"
  shows "p \<in> fst ` set (contributions links ranks)"
proof -
  from assms(2) obtain q where q: "q < length links" "links ! q = ol"
    by (auto simp: in_set_conv_nth)
  then have "(ol, ranks ! q) \<in> set (zip links ranks)"
    using assms(1) by (auto simp: set_zip)
  moreover have "p \<in> fst ` set (emitted (ol, ranks ! q))"
    using assms(3) by (auto simp: emitted_def image_iff)
  ultimately show ?thesis
    unfolding contributions_def by (auto simp: image_iff) 
qed

lemma zip_upt_map: "zip [0..<n] (map g [0..<n]) = map (\<lambda>i. (i, g i)) [0..<n]"
  by (simp add: zip_map2 zip_same_conv_map)

lemma PageRankJoin_iter_index:
  fixes links_j :: "LinkedPage DIA" and links :: "OutgoingLinks list"
  assumes W: "0 < length links_j" and lr: "length rj = length links_j"
    and graph: "mset (items links_j) = mset (zip [0..<n] links)"
    and ll: "length links = n" and lranks: "length ranks = n"
    and range: "\<forall>ol \<in> set links. \<forall>t \<in> set ol. t < n"
    and inlink: "\<forall>p < n. \<exists>ol \<in> set links. p \<in> set ol"
    and rel: "mset (items rj) = mset (zip [0..<n] ranks)"
  shows "\<exists>rj'. PageRankJoin_iter h flag links_j n rj = Inr rj' \<and> length rj' = length links_j \<and>
           mset (items rj') = mset (zip [0..<n]
              (map (\<lambda>i. dampening * rawTotal (contributions links ranks) i
                           + (1 - dampening) / real n) [0..<n]))"
proof -
  let ?C = "contributions links ranks"
  let ?cj = "map (\<lambda>part. concat (map emitted part))
            (InnerJoin h flag links_j rj fst fst (\<lambda>lp rp. (snd lp, snd rp)))"
  let ?damp = "\<lambda>p :: PageId \<times> Rank. (fst p, dampening * snd p + (1 - dampening) / real n)"
  let ?red = "ReducePair h (\<lambda>p1 p2. p1 + p2) ?cj"
  have "join_mset fst fst (\<lambda>lp rp. (snd lp, snd rp)) (mset (items links_j)) (mset (items rj))
          = mset (zip links ranks)"
    unfolding graph rel mset_local_join [symmetric]
    by (simp add: local_join_index_aligned ll lranks)
  then have "mset (items ?cj) = (\<Sum>p \<in># mset (zip links ranks). mset (emitted p))"
    by (simp add: join_contribs_mset [OF W lr])
  also have "\<dots> = mset ?C"
    unfolding contributions_def by (simp add: mset_concat_map)
  finally have cj: "mset (items ?cj) = mset ?C" .
  have lcj: "length ?cj = length links_j"
    using lr by (simp add: length_InnerJoin)
  have raw: "rawTotal (items ?cj) = rawTotal ?C"
    by (rule ext) (simp add: rawTotal_mset cj)
  have "fst ` set ?C = {0..<n}"
  proof (intro set_eqI iffI)
    fix p assume "p \<in> fst ` set ?C"
    then obtain c where c: "c \<in> set ?C" "p = fst c"
      by blast
    then obtain ol where "ol \<in> set links" "fst c \<in> set ol"
      using keys_contributions by blast
    then show "p \<in> {0..<n}"
      using range c(2) by simp
  next
    fix p assume "p \<in> {0..<n}"
    then obtain ol where "ol \<in> set links" "p \<in> set ol"
      using inlink by auto
    then show "p \<in> fst ` set ?C"
      by (rule targets_contributions [rotated]) (simp add: ll lranks)
  qed
  then have keys: "fst ` set (items ?cj) = {0..<n}"
    using mset_eq_setD [OF cj] by simp
  have set_red: "set (items ?red) = (\<lambda>p. (p, rawTotal ?C p)) ` {0..<n}"
    using set_items_ReducePair [of ?cj h] W lcj by (simp add: raw keys del: length_map)
  have d_red: "distinct (map fst (items ?red))"
    by (rule distinct_items_ReducePair)
  let ?new = "map (\<lambda>i. dampening * rawTotal ?C i + (1 - dampening) / real n) [0..<n]"
  have "set (items (Map ?damp ?red)) = set (zip [0..<n] ?new)"
    unfolding zip_upt_map items_Map set_map set_red image_image by simp
  moreover have "distinct (items (Map ?damp ?red))"
  proof -
    have "map fst (items (Map ?damp ?red)) = map fst (items ?red)"
      by (simp add: items_Map comp_def)
    then show ?thesis
      using d_red distinct_map [of fst "items (Map ?damp ?red)"] by simp
  qed
  moreover have "distinct (zip [0..<n] ?new)"
    by (simp add: distinct_zipI1)
  ultimately have "mset (items (Map ?damp ?red)) = mset (zip [0..<n] ?new)"
    by (simp only: set_eq_iff_mset_eq_distinct)
  then show ?thesis
    by (simp add: PageRankJoin_iter_def PageRankJoin_contribs_eq length_Map length_ReducePair lcj
        del: length_map)
qed

lemma PageRankJoin_agrees:
  fixes links_j :: "LinkedPage DIA" and links :: "OutgoingLinks DIA"
  assumes wf: "well_formed_links links n" and W: "0 < length links_j"
    and graph: "mset (items links_j) = mset (zip [0..<n] (items links))"
    and inlink: "\<forall>p < n. \<exists>ol \<in> set (items links). p \<in> set ol"
  shows "\<exists>ri rj. PageRank links n k = Inr ri \<and> PageRankJoin h flag links_j n k = Inr rj \<and>
           mset (items rj) = mset (zip [0..<n] (items ri))"
proof -
  let ?R = "\<lambda>(ri :: Rank DIA) (rj :: RankedPage DIA).
      length (items ri) = n \<and> length rj = length links_j \<and> mset (items rj) = mset (zip [0..<n] (items ri))"
  have range: "\<forall>ol \<in> set (items links). \<forall>t \<in> set ol. t < n" and ll: "length (items links) = n"
    and Wi: "0 < length links"
    using wf by (auto simp: well_formed_links_def list_all_iff)
  have "\<exists>s' t'. for_loop k (PageRank_iter links n) (Generate (DIA_context links) n (\<lambda>_. 1 / real n)) = Inr s'
      \<and> for_loop k (PageRankJoin_iter h flag links_j n)
           (Generate (DIA_context links_j) n (\<lambda>idx. (idx, 1 / real n))) = Inr t' \<and> ?R s' t'"
  proof (rule for_loop_related [where R = ?R])
    show "?R (Generate (DIA_context links) n (\<lambda>_. 1 / real n))
             (Generate (DIA_context links_j) n (\<lambda>idx. (idx, 1 / real n)))"
      using W Wi by (simp add: items_Generate length_Generate DIA_context_def zip_upt_map)
  next
    fix ri :: "Rank DIA" and rj :: "RankedPage DIA" assume R: "?R ri rj"
    then have lri: "length (items ri) = n" and lrj: "length rj = length links_j"
      and rel: "mset (items rj) = mset (zip [0..<n] (items ri))"
      by simp_all
    from PageRankJoin_iter_index [OF W lrj graph ll lri range inlink rel, of h flag]
    obtain rj' where "PageRankJoin_iter h flag links_j n rj = Inr rj'" "length rj' = length links_j"
      "mset (items rj') = mset (zip [0..<n]
              (map (\<lambda>i. dampening * rawTotal (contributions (items links) (items ri)) i
                           + (1 - dampening) / real n) [0..<n]))"
      by blast
    then show "\<exists>s' t'. PageRank_iter links n ri = Inr s' \<and> PageRankJoin_iter h flag links_j n rj = Inr t'
                 \<and> ?R s' t'"
      using Wi by (simp add: PageRank_iter_step [OF wf lri] items_range_split)
  qed
  then show ?thesis
    unfolding PageRank_def PageRankJoin_def by blast
qed

subsection \<open>Pages with a rank record in the join shape\<close>

lemma for_loop_last:
  "for_loop (Suc k) body s = Inr s' \<Longrightarrow> \<exists>t. for_loop k body s = Inr t \<and> body t = Inr s'"
proof (induction k arbitrary: s)
  case 0
  then show ?case by (simp split: sum.splits)
next
  case (Suc k)
  from Suc.prems obtain s1 where s1: "body s = Inr s1" "for_loop (Suc k) body s1 = Inr s'"
    by (auto split: sum.splits)
  from Suc.IH [OF s1(2)] obtain t where "for_loop k body s1 = Inr t" "body t = Inr s'"
    by blast
  then show ?case
    using s1(1) by simp
qed

lemma join_mset_member:
  "x \<in># join_mset keyl keyr comb L R \<Longrightarrow> \<exists>l \<in># L. \<exists>r \<in># R. x = comb l r \<and> keyr r = keyl l"
  by (auto simp: join_mset_def)

lemma PageRankJoin_iter_keys:
  assumes W: "0 < length links" and lr: "length ranks = length links"
    and step: "PageRankJoin_iter h flag links n ranks = Inr ranks'"
    and p: "p \<in> fst ` set (items ranks')"
  shows "\<exists>lp \<in> set (items links). p \<in> set (snd lp)"
proof -
  let ?cj = "map (\<lambda>part. concat (map emitted part))
            (InnerJoin h flag links ranks fst fst (\<lambda>lp rp. (snd lp, snd rp)))"
  have r': "ranks' = Map (\<lambda>p. (fst p, dampening * snd p + (1 - dampening) / real n))
                       (ReducePair h (\<lambda>p1 p2. p1 + p2) ?cj)"
    using step by (simp add: PageRankJoin_iter_def PageRankJoin_contribs_eq)
  have lcj: "0 < length ?cj"
    using W lr by (simp add: length_InnerJoin)
  have "p \<in> fst ` set (items (ReducePair h (\<lambda>p1 p2. p1 + p2) ?cj))"
    using p unfolding r' items_Map by (auto simp: image_iff)
  then have "p \<in> fst ` set (items ?cj)"
    unfolding set_items_ReducePair [OF lcj] by (auto simp: image_iff)
  then obtain c where c: "c \<in># mset (items ?cj)" "p = fst c"
    by auto
  from c(1) obtain q where q: "q \<in># join_mset fst fst (\<lambda>lp rp. (snd lp, snd rp))
      (mset (items links)) (mset (items ranks))" "c \<in> set (emitted q)"
    unfolding join_contribs_mset [OF W lr] by auto
  from join_mset_member [OF q(1)] obtain lp where lp: "lp \<in> set (items links)" "fst q = snd lp"
    by auto
  have "p \<in> set (fst q)"
    using q(2) c(2) by (auto simp: emitted_def)
  then show ?thesis
    using lp by auto
qed

lemma PageRankJoin_keys:
  assumes W: "0 < length links" and run: "PageRankJoin h flag links n (Suc k) = Inr ranks"
    and p: "p \<in> fst ` set (items ranks)"
  shows "\<exists>lp \<in> set (items links). p \<in> set (snd lp)"
proof -
  let ?init = "Generate (DIA_context links) n (\<lambda>idx. (idx, 1 / real n)) :: RankedPage DIA"
  from for_loop_last [OF run [unfolded PageRankJoin_def]]
  obtain t where t: "for_loop k (PageRankJoin_iter h flag links n) ?init = Inr t"
    "PageRankJoin_iter h flag links n t = Inr ranks"
    by blast
  have "\<exists>t'. for_loop k (PageRankJoin_iter h flag links n) ?init = Inr t' \<and> length t' = length links"
  proof (rule for_loop_invariant [where I = "\<lambda>r. length r = length links"])
    show "length ?init = length links"
      by (simp add: length_Generate DIA_context_def)
  next
    fix s :: "RankedPage DIA" assume "length s = length links"
    then show "\<exists>s'. PageRankJoin_iter h flag links n s = Inr s' \<and> length s' = length links"
      using PageRankJoin_iter_cong [OF W, of s s h flag n flag] by auto
  qed
  then have "length t = length links"
    using t(1) by simp
  then show ?thesis
    using PageRankJoin_iter_keys [OF W _ t(2) p] by simp
qed

subsection \<open>The dampening step\<close>

lemma PageRank_contribs_sizes:
  "PageRank_contribs links ranks = Inr contribs \<Longrightarrow> length (items links) = length (items ranks)"
  by (auto simp: PageRank_contribs_def Zip_def split: if_splits)

lemma PageRank_iter_formula:
  assumes c: "PageRank_contribs links ranks = Inr contribs"
    and step: "PageRank_iter links num_pages ranks = Inr ranks'"
    and W: "0 < length links" and i: "i < num_pages"
  shows "items ranks' ! i =
           dampening * rawTotal (map (\<lambda>c. (page c, rank c)) (items contribs)) i
             + (1 - dampening) / real num_pages"
proof -
  note len = PageRank_contribs_sizes [OF c]
  note ic = items_PageRank_contribs [OF len W c]
  have "ranks' = range_split (length links)
      (map (\<lambda>i. dampening * rawTotal (map (\<lambda>c. (page c, rank c)) (items contribs)) i
                   + (1 - dampening) / real num_pages) [0..<num_pages])"
    using step
    by (auto simp: PageRank_iter_def c ReduceToIndex_def Map_range_split ic(2)
        rank_reduce_items rawTotal_records comp_def split: if_splits)
  then show ?thesis
    using W i by (simp add: items_range_split)
qed

lemma PageRankJoin_iter_formula:
  assumes W: "0 < length links" and lr: "length ranks = length links"
    and c: "PageRankJoin_contribs h flag links ranks = Inr contribs"
    and step: "PageRankJoin_iter h flag links num_pages ranks = Inr ranks'"
  shows "distinct (map fst (items ranks')) \<and>
         set (items ranks') =
           (\<lambda>p. (p, dampening * rawTotal (items contribs) p + (1 - dampening) / real num_pages))
             ` fst ` set (items contribs)"
proof -
  have "contribs = map (\<lambda>part. concat (map emitted part))
            (InnerJoin h flag links ranks fst fst (\<lambda>lp rp. (snd lp, snd rp)))"
    using c unfolding PageRankJoin_contribs_eq by simp
  then have lc: "0 < length contribs"
    using W length_join_contribs [OF lr, of h flag] by simp
  have r': "ranks' = Map (\<lambda>p. (fst p, dampening * snd p + (1 - dampening) / real num_pages))
                       (ReducePair h (\<lambda>p1 p2. p1 + p2) contribs)"
    using step by (simp add: PageRankJoin_iter_def c)
  have "map fst (items ranks') = map fst (items (ReducePair h (\<lambda>p1 p2. p1 + p2) contribs))"
    by (simp add: r' items_Map comp_def)
  then have "distinct (map fst (items ranks'))"
    by (simp add: distinct_items_ReducePair)
  moreover have "set (items ranks') =
           (\<lambda>p. (p, dampening * rawTotal (items contribs) p + (1 - dampening) / real num_pages))
             ` fst ` set (items contribs)"
    unfolding r' items_Map set_map set_items_ReducePair [OF lc] image_image by simp
  ultimately show ?thesis by simp
qed

lemma PageRankJoinSelf_iter_formula:
  assumes W: "0 < length links" and lr: "length ranks = length links"
    and c: "PageRankJoinSelf_contribs h flag links ranks = Inr contribs"
    and step: "PageRankJoinSelf_iter h flag links ranks = Inr ranks'"
  shows "distinct (map fst (items ranks')) \<and>
         set (items ranks') =
           (\<lambda>p. (p, dampening * rawTotal (items contribs) p + (1 - dampening)))
             ` fst ` set (items contribs)"
proof -
  have "contribs = map (\<lambda>part. concat (map emitted part))
            (InnerJoin h flag links ranks fst fst (\<lambda>lp rp. (snd lp, snd rp)))"
    using c unfolding PageRankJoinSelf_contribs_eq by simp
  then have lc: "0 < length contribs"
    using W length_join_contribs [OF lr, of h flag] by simp
  have r': "ranks' = Map (\<lambda>p. (fst p, dampening * snd p + (1 - dampening)))
                       (ReducePair h (\<lambda>p1 p2. p1 + p2) contribs)"
    using step by (simp add: PageRankJoinSelf_iter_def c)
  have "map fst (items ranks') = map fst (items (ReducePair h (\<lambda>p1 p2. p1 + p2) contribs))"
    by (simp add: r' items_Map comp_def)
  then have "distinct (map fst (items ranks'))"
    by (simp add: distinct_items_ReducePair)
  moreover have "set (items ranks') =
           (\<lambda>p. (p, dampening * rawTotal (items contribs) p + (1 - dampening)))
             ` fst ` set (items contribs)"
    unfolding r' items_Map set_map set_items_ReducePair [OF lc] image_image by simp
  ultimately show ?thesis by simp
qed

subsection \<open>Evaluation, the parser and the output\<close>

lemmas eval_defs = PageRank_def PageRank_iter_def PageRank_contribs_def PageRank_emit_def
  PageRankJoin_def PageRankJoin_iter_def PageRankJoin_contribs_def PageRankJoin_emit_def
  PageRankJoinSelf_def PageRankJoinSelf_iter_def PageRankJoinSelf_contribs_def PageRankJoinSelf_emit_def
  rank_div_def Zip_def FlatMap_def ReduceToIndex_def ReducePair_def InnerJoin_def Map_def
  Generate_def range_split_def hash_split_def items_def DIA_context_def colocated_def
  local_join_def reduce_by_key_def dampening_def rawTotal_def










lemmas parser_defs = PageRankLineParser_def strtoul_def c_str_def deref_def isspace_def isdigit_def
  ULONG_MAX_def digit_value_def Let_def

lemma length_map_or_die: "map_or_die f xs = Inr ys \<Longrightarrow> length ys = length xs"
  by (induction xs arbitrary: ys) (auto split: sum.splits)

lemma length_Map_or_die: "Map_or_die f d = Inr d' \<Longrightarrow> length d' = length d"
  unfolding Map_or_die_def by (rule length_map_or_die)

lemma length_GroupToIndex: "GroupToIndex key grp n d = Inr d' \<Longrightarrow> length d' = length d"
  by (auto simp: GroupToIndex_def length_range_split split: if_splits)

lemma PageRank_iter_result:
  assumes step: "PageRank_iter links num_pages ranks = Inr ranks'" and W: "0 < length links"
  shows "length ranks' = length links \<and> length (items ranks') = num_pages"
proof -
  from step obtain contribs where c: "PageRank_contribs links ranks = Inr contribs"
    by (auto simp: PageRank_iter_def split: sum.splits)
  have "length (items ranks') = num_pages"
    using PageRank_iter_formula [OF c step W] step W
    by (auto simp: PageRank_iter_def c ReduceToIndex_def Map_range_split items_range_split
        items_PageRank_contribs(2) [OF PageRank_contribs_sizes [OF c] W c]
        split: if_splits sum.splits)
  moreover have "length ranks' = length links"
    using step
    by (auto simp: PageRank_iter_def c ReduceToIndex_def Map_range_split length_range_split
        items_PageRank_contribs(2) [OF PageRank_contribs_sizes [OF c] W c]
        split: if_splits sum.splits)
  ultimately show ?thesis by simp
qed

lemma PageRank_result:
  assumes run: "PageRank links num_pages iterations = Inr ranks" and W: "0 < length links"
  shows "length ranks = length links \<and> length (items ranks) = num_pages"
proof (cases iterations)
  case 0
  then show ?thesis
    using run W by (auto simp: PageRank_def length_Generate items_Generate DIA_context_def)
next
  case (Suc k)
  from for_loop_last [OF run [unfolded PageRank_def Suc]] obtain t
    where "PageRank_iter links num_pages t = Inr ranks" by blast
  then show ?thesis
    using PageRank_iter_result W by blast
qed

lemma items_ZipWithIndex:
  "0 < length d \<Longrightarrow> items (ZipWithIndex f d) = map2 f (items d) [0..<length (items d)]"
  by (simp add: ZipWithIndex_def items_range_split)

lemma RunPageRankEdgePerLine_lines:
  assumes parse: "Map_or_die PageRankLineParser lines = Inr input"
    and links: "RunPageRankEdgePerLine_links input (RunPageRankEdgePerLine_num_pages input) = Inr links"
    and run: "PageRank links (RunPageRankEdgePerLine_num_pages input) iterations = Inr ranks"
    and W: "0 < length lines" and out: "output_path \<noteq> []"
  shows "\<exists>written. RunPageRankEdgePerLine fmt_g lines output_path iterations = Inr (Some written) \<and>
           length (items written) = RunPageRankEdgePerLine_num_pages input \<and>
           (\<forall>i < RunPageRankEdgePerLine_num_pages input.
              items written ! i = to_string_size_t i @ '': '' @ fmt_g (items ranks ! i))"
proof -
  have "length links = length lines"
    using length_Map_or_die [OF parse] length_GroupToIndex [OF links [unfolded RunPageRankEdgePerLine_links_def]]
    by simp
  then have Wl: "0 < length links" using W by simp
  note res = PageRank_result [OF run Wl]
  have Wr: "0 < length ranks" using res Wl by simp
  show ?thesis
    using out res
    by (simp add: RunPageRankEdgePerLine_def parse links run items_ZipWithIndex [OF Wr]
        ssprintf_zu_g_def)
qed

text \<open>What \<^verbatim>\<open>RunPageRankGenerated\<close> writes: the function given to \<^verbatim>\<open>ZipWithIndex\<close>
  takes the rank for the page id and the index for the rank, so the line of page \<open>i\<close>
  starts with the truncated rank and ends with the index.\<close>

lemma RunPageRankGenerated_lines:
  assumes "from_str input_path = Some num_pages"
    and "PageRank (Generate ctx num_pages GenerateOutgoing) num_pages iterations = Inr ranks"
    and "0 < num_workers ctx" and "output_path \<noteq> []"
  shows "\<exists>written. RunPageRankGenerated from_str to_string_double ctx input_path GenerateOutgoing
                      output_path iterations = Inr (Some written) \<and>
           length (items written) = num_pages \<and>
           (\<forall>i < num_pages. items written ! i
               = to_string_size_t (nat \<lfloor>items ranks ! i\<rfloor>) @ '': '' @ to_string_double (real i))"
proof -
  have W: "0 < length (Generate ctx num_pages GenerateOutgoing)"
    using assms(3) by (simp add: length_Generate)
  note res = PageRank_result [OF assms(2) W]
  have Wr: "0 < length ranks" using res W by simp
  show ?thesis
    using assms(4) res
    by (simp add: RunPageRankGenerated_def assms(1,2) items_ZipWithIndex [OF Wr])
qed

subsection \<open>A graph with a page without incoming link\<close>

text \<open>Two pages that both link to page 1. The index-based shape reaches its fixed point
  after one iteration; in the join-based shape page 0 has no rank record from the first
  iteration on, and the rank of page 1 stays below 689/800.\<close>

lemma for_loop_fixed: "body s = Inr s \<Longrightarrow> for_loop k body s = Inr s"
  by (induction k) simp_all

lemma no_inlink_index_ranks:
  "PageRank [[[1], [1]]] 2 (Suc k) = Inr [[3 / 40, 37 / 40]]"
proof -
  have first: "PageRank_iter [[[1], [1]]] 2 (Generate (DIA_context [[[1], [1 :: PageId]]]) 2 (\<lambda>_. 1 / real 2))
                 = Inr [[3 / 40, 37 / 40]]"
    by code_simp
  have fixed: "PageRank_iter [[[1], [1]]] 2 [[3 / 40, 37 / 40]] = Inr [[3 / 40, 37 / 40]]"
    by code_simp
  show ?thesis
    unfolding PageRank_def for_loop.simps first sum.case
    by (rule for_loop_fixed) (rule fixed)
qed

lemma no_inlink_join_step:
  "PageRankJoin_iter (\<lambda>p. p) False [[(0, [1]), (1, [1])]] 2 [[(1, r)]]
     = Inr [[(1, 0.85 * r + 0.075)]]"
  by (simp add: eval_defs)

lemma no_inlink_join_ranks:
  "\<exists>r. PageRankJoin (\<lambda>p. p) False [[(0, [1]), (1, [1])]] 2 (Suc (Suc k)) = Inr [[(1, r)]]
        \<and> r \<le> 689 / 800"
proof -
  let ?body = "PageRankJoin_iter (\<lambda>p. p) False [[(0, [1]), (1, [1])]] 2"
  have first: "?body (Generate (DIA_context [[(0 :: PageId, [1 :: PageId]), (1, [1])]]) 2
                        (\<lambda>idx. (idx, 1 / real 2))) = Inr [[(1, 37 / 40)]]"
    by code_simp
  have second: "?body [[(1, 37 / 40)]] = Inr [[(1, 689 / 800)]]"
    using no_inlink_join_step [of "37 / 40"] by simp
  have "\<exists>s'. for_loop k ?body [[(1, 689 / 800)]] = Inr s' \<and> (\<exists>r. s' = [[(1, r)]] \<and> r \<le> 689 / 800)"
  proof (rule for_loop_invariant [where I = "\<lambda>s. \<exists>r. s = [[(1, r)]] \<and> r \<le> 689 / 800"])
    show "\<exists>r. [[(1, 689 / 800)]] = [[(1 :: PageId, r :: Rank)]] \<and> r \<le> 689 / 800"
      by (intro exI [of _ "689 / 800"]) simp
  next
    fix s :: "RankedPage DIA" assume "\<exists>r. s = [[(1, r)]] \<and> r \<le> 689 / 800"
    then obtain r where "s = [[(1, r)]]" "r \<le> 689 / 800" by blast
    then show "\<exists>s'. ?body s = Inr s' \<and> (\<exists>r. s' = [[(1, r)]] \<and> r \<le> 689 / 800)"
      using no_inlink_join_step [of r] by simp
  qed
  then show ?thesis
    unfolding PageRankJoin_def for_loop.simps first second sum.case by blast
qed

subsection \<open>Page ids below the wrap-around\<close>

text \<open>When every page id of the input is below \<open>2^64 - 1\<close>, the page count does not
  wrap around, every key is in range, and the file-based index shape computes ranks.\<close>

lemma foldl_max_ge: "a \<le> foldl max a xs \<and> (\<forall>x \<in> set xs. x \<le> foldl max a xs)" for a :: nat
proof (induction xs arbitrary: a)
  case Nil
  then show ?case by simp
next
  case (Cons y ys)
  have "max a y \<le> foldl max (max a y) ys" "\<forall>x \<in> set ys. x \<le> foldl max (max a y) ys"
    using Cons [of "max a y"] by simp_all
  then show ?case by auto
qed

lemma foldl_max_less: "a < B \<Longrightarrow> \<forall>x \<in> set xs. x < B \<Longrightarrow> foldl max a xs < B" for a :: nat
  by (induction xs arbitrary: a) simp_all

lemma RunPageRankEdgePerLine_in_range:
  assumes ids: "\<forall>e \<in> set (items input). src e < 2 ^ 64 - 1 \<and> tgt e < 2 ^ 64 - 1"
    and W: "0 < length input"
  shows "\<exists>links ranks.
           RunPageRankEdgePerLine_links input (RunPageRankEdgePerLine_num_pages input) = Inr links \<and>
           well_formed_links links (RunPageRankEdgePerLine_num_pages input) \<and>
           PageRank links (RunPageRankEdgePerLine_num_pages input) iterations = Inr ranks"
proof -
  let ?ms = "map (\<lambda>ppl. max (src ppl) (tgt ppl)) (items input)"
  let ?M = "foldl max 0 ?ms"
  let ?n = "RunPageRankEdgePerLine_num_pages input"
  have "?M < 2 ^ 64 - 1"
    by (rule foldl_max_less) (use ids in auto)
  then have n: "?n = ?M + 1"
    by (simp add: RunPageRankEdgePerLine_num_pages_def Max_DIA_def items_Map)
  have le: "max (src e) (tgt e) \<le> ?M" if "e \<in> set (items input)" for e
    using foldl_max_ge [of 0 ?ms] that by simp
  have keys: "src e < ?n" "tgt e < ?n" if "e \<in> set (items input)" for e
    using le [OF that] n by simp_all
  let ?links = "range_split (length input)
      (map (\<lambda>i. map tgt (filter (\<lambda>x. src x = i) (items input))) [0..<?n])"
  have l: "RunPageRankEdgePerLine_links input ?n = Inr ?links"
    using keys(1) by (simp add: RunPageRankEdgePerLine_links_def GroupToIndex_def list_all_iff)
  have wf: "well_formed_links ?links ?n"
    using W keys(2)
    by (auto simp: well_formed_links_def length_range_split items_range_split list_all_iff)
  show ?thesis
    using l wf PageRank_total [OF wf, of iterations] by blast
qed

section \<open>The claims\<close>

text \<open>
  \<^bold>\<open>Claim C2.\<close> As stated the claim fails for the self-join variant, which adds \<open>1 - d\<close>, not
  \<open>(1 - d) / num_pages\<close>. Amended: in one iteration of the index-based shape the new
  rank of every page \<open>i < num_pages\<close> is \<open>d * rawTotal + (1 - d) / num_pages\<close>, where
  \<open>rawTotal\<close> is the sum of the contribution records landing on \<open>i\<close>; in one iteration of
  \<^verbatim>\<open>PageRankJoin\<close> the new rank collection holds exactly one record for every page that
  received a contribution, with the same formula; in one iteration of
  \<^verbatim>\<open>PageRankJoinSelf\<close> it holds exactly one record for every such page, with rank
  \<open>d * rawTotal + (1 - d)\<close>; and \<open>d = 0.85\<close>.
\<close>

theorem C2_dampening:
  "(PageRank_contribs links ranks = Inr contribs \<and>
      PageRank_iter links num_pages ranks = Inr ranks' \<and> 0 < length links \<and> i < num_pages \<longrightarrow>
        items ranks' ! i =
          dampening * rawTotal (map (\<lambda>c. (page c, rank c)) (items contribs)) i
            + (1 - dampening) / real num_pages) \<and>
   (PageRankJoin_contribs h flag links_j ranks_j = Inr contribs_j \<and>
      PageRankJoin_iter h flag links_j num_pages ranks_j = Inr ranks_j' \<and>
      0 < length links_j \<and> length ranks_j = length links_j \<longrightarrow>
        distinct (map fst (items ranks_j')) \<and>
        set (items ranks_j') =
          (\<lambda>p. (p, dampening * rawTotal (items contribs_j) p + (1 - dampening) / real num_pages))
            ` fst ` set (items contribs_j)) \<and>
   (PageRankJoinSelf_contribs h flag links_j ranks_j = Inr contribs_s \<and>
      PageRankJoinSelf_iter h flag links_j ranks_j = Inr ranks_s' \<and>
      0 < length links_j \<and> length ranks_j = length links_j \<longrightarrow>
        distinct (map fst (items ranks_s')) \<and>
        set (items ranks_s') =
          (\<lambda>p. (p, dampening * rawTotal (items contribs_s) p + (1 - dampening)))
            ` fst ` set (items contribs_s)) \<and>
   dampening = 0.85"
  using PageRank_iter_formula [of links ranks contribs num_pages ranks' i]
    PageRankJoin_iter_formula [of links_j ranks_j h flag contribs_j num_pages ranks_j']
    PageRankJoinSelf_iter_formula [of links_j ranks_j h flag contribs_s ranks_s']
  by (simp add: dampening_def)

theorem C2_witness:
  "PageRank_contribs [[[1], [0]]] [[1 / 2, 1 / 2]]
     = Inr [[\<lparr>page = 1, rank = 1 / 2\<rparr>, \<lparr>page = 0, rank = 1 / 2\<rparr>]] \<and>
   PageRank_iter [[[1], [0]]] 2 [[1 / 2, 1 / 2]] = Inr [[1 / 2, 1 / 2]] \<and>
   0 < length [[[1], [0 :: PageId]]] \<and> (0 :: nat) < 2 \<and>
   items [[1 / 2, 1 / 2 :: Rank]] ! 0 = 0.85 * (1 / 2) + (1 - 0.85) / 2 \<and>
   PageRankJoin_contribs (\<lambda>p. p) True [[(0, [1]), (1, [0])]] [[(0, 1 / 2), (1, 1 / 2)]]
     = Inr [[(1, 1 / 2), (0, 1 / 2)]] \<and>
   PageRankJoin_iter (\<lambda>p. p) True [[(0, [1]), (1, [0])]] 2 [[(0, 1 / 2), (1, 1 / 2)]]
     = Inr [[(1, 1 / 2), (0, 1 / 2)]] \<and>
   set (items [[(1 :: PageId, 1 / 2 :: Rank), (0, 1 / 2)]])
     = {(1, 0.85 * (1 / 2) + (1 - 0.85) / 2), (0, 0.85 * (1 / 2) + (1 - 0.85) / 2)} \<and>
   PageRankJoinSelf_contribs (\<lambda>p. p) True [[(0, [1]), (1, [0])]] [[(0, 1 / 2), (1, 1 / 2)]]
     = Inr [[(1, 1 / 2), (0, 1 / 2)]] \<and>
   PageRankJoinSelf_iter (\<lambda>p. p) True [[(0, [1]), (1, [0])]] [[(0, 1 / 2), (1, 1 / 2)]]
     = Inr [[(1, 23 / 40), (0, 23 / 40)]] \<and>
   set (items [[(1 :: PageId, 23 / 40 :: Rank), (0, 23 / 40)]])
     = {(1, 0.85 * (1 / 2) + (1 - 0.85)), (0, 0.85 * (1 / 2) + (1 - 0.85))}"
proof -
  have e: "PageRank_contribs [[[1], [0]]] [[1 / 2, 1 / 2]]
     = Inr [[\<lparr>page = 1, rank = 1 / 2\<rparr>, \<lparr>page = 0, rank = 1 / 2\<rparr>]]"
    "PageRank_iter [[[1], [0]]] 2 [[1 / 2, 1 / 2]] = Inr [[1 / 2, 1 / 2]]"
    "PageRankJoin_contribs (\<lambda>p. p) True [[(0, [1]), (1, [0])]] [[(0, 1 / 2), (1, 1 / 2)]]
     = Inr [[(1, 1 / 2), (0, 1 / 2)]]"
    "PageRankJoin_iter (\<lambda>p. p) True [[(0, [1]), (1, [0])]] 2 [[(0, 1 / 2), (1, 1 / 2)]]
     = Inr [[(1, 1 / 2), (0, 1 / 2)]]"
    "PageRankJoinSelf_contribs (\<lambda>p. p) True [[(0, [1]), (1, [0])]] [[(0, 1 / 2), (1, 1 / 2)]]
     = Inr [[(1, 1 / 2), (0, 1 / 2)]]"
    "PageRankJoinSelf_iter (\<lambda>p. p) True [[(0, [1]), (1, [0])]] [[(0, 1 / 2), (1, 1 / 2)]]
     = Inr [[(1, 23 / 40), (0, 23 / 40)]]"
    by code_simp+
  show ?thesis
    using C2_dampening [of "[[[1], [0]]]" "[[1 / 2, 1 / 2]]"
        "[[\<lparr>page = 1, rank = 1 / 2\<rparr>, \<lparr>page = 0, rank = 1 / 2\<rparr>]]" 2 "[[1 / 2, 1 / 2]]" 0
        "\<lambda>p. p" True "[[(0, [1]), (1, [0])]]" "[[(0, 1 / 2), (1, 1 / 2)]]"
        "[[(1, 1 / 2), (0, 1 / 2)]]" "[[(1, 1 / 2), (0, 1 / 2)]]"
        "[[(1, 1 / 2), (0, 1 / 2)]]" "[[(1, 23 / 40), (0, 23 / 40)]]"]
    unfolding e by (simp add: items_def rawTotal_def dampening_def)
qed

text \<open>The self-join variant on two pages that link to each other: the rank of page 0
  after one iteration is 1, not \<open>d * 1 + (1 - d) / 2\<close>.\<close>

theorem C2_counterexample:
  "PageRankJoinSelf_contribs (\<lambda>p. p) True [[(0, [1]), (1, [0])]] [[(0, 1), (1, 1)]]
     = Inr [[(1, 1), (0, 1)]] \<and>
   rawTotal (items [[(1, 1), (0, 1)]]) 0 = 1 \<and>
   PageRankJoinSelf_iter (\<lambda>p. p) True [[(0, [1]), (1, [0])]] [[(0, 1), (1, 1)]]
     = Inr [[(1, 1), (0, 1)]] \<and>
   (1 :: Rank) \<noteq> dampening * 1 + (1 - dampening) / real 2"
proof -
  have "PageRankJoinSelf_contribs (\<lambda>p. p) True [[(0, [1]), (1, [0])]] [[(0, 1), (1, 1)]]
     = Inr [[(1, 1), (0, 1)]]"
    "PageRankJoinSelf_iter (\<lambda>p. p) True [[(0, [1]), (1, [0])]] [[(0, 1), (1, 1)]]
     = Inr [[(1, 1), (0, 1)]]"
    by code_simp+
  then show ?thesis
    by (simp add: items_def rawTotal_def dampening_def)
qed

text \<open>
  \<^bold>\<open>Claim C3.\<close> As stated the claim fails for a graph of zero pages, whose ranks sum to 0.
  Amended: for at least one page (and at least one worker), one link list per page, every
  target a page and every page with at least one outgoing link, the index-based PageRank
  returns for every iteration count, with \<open>num_pages\<close> ranks whose sum is exactly 1 (in
  exact arithmetic).
\<close>

theorem C3_rank_mass:
  assumes "0 < length links" and "0 < num_pages" and "length (items links) = num_pages"
    and "\<forall>ol \<in> set (items links). ol \<noteq> [] \<and> (\<forall>t \<in> set ol. t < num_pages)"
  shows "\<exists>ranks. PageRank links num_pages iterations = Inr ranks \<and>
           length (items ranks) = num_pages \<and> sum_list (items ranks) = 1"
proof (rule PageRank_sum)
  show "well_formed_links links num_pages"
    using assms by (simp add: well_formed_links_def list_all_iff)
qed (use assms in simp_all)

theorem C3_witness:
  "0 < length [[[1], [2]], [[0], [0 :: PageId]]] \<and>
   length (items [[[1], [2]], [[0], [0 :: PageId]]]) = 4 \<and>
   list_all (\<lambda>ol. ol \<noteq> [] \<and> list_all (\<lambda>t. t < 4) ol) (items [[[1], [2]], [[0], [0 :: PageId]]]) \<and>
   PageRank [[[1], [2]], [[0], [0]]] 4 2 = Inr [[451 / 1600, 689 / 1600], [1 / 4, 3 / 80]] \<and>
   (\<exists>ranks. PageRank [[[1], [2]], [[0], [0]]] 4 2 = Inr ranks \<and>
       length (items ranks) = 4 \<and> sum_list (items ranks) = 1)"
proof -
  have "PageRank [[[1], [2]], [[0], [0]]] 4 2 = Inr [[451 / 1600, 689 / 1600], [1 / 4, 3 / 80]]"
    by code_simp
  then show ?thesis
    using C3_rank_mass [of "[[[1], [2]], [[0], [0]]]" 4 2] by (simp add: items_def)
qed

theorem C3_counterexample:
  "PageRank [[]] 0 0 = Inr [[]] \<and> PageRank [[]] 0 1 = Inr [[]] \<and>
   list_all (\<lambda>ol. ol \<noteq> []) (items ([[]] :: OutgoingLinks DIA)) \<and>
   sum_list (items ([[]] :: Rank DIA)) \<noteq> 1"
  by (simp add: eval_defs)

text \<open>
  \<^bold>\<open>Claim C4.\<close> As stated the claim fails for a graph with a page that has no incoming link: from
  the first iteration on the join-based shape holds no rank record for it. Amended: for
  every graph in which every page has at least one incoming link (one link list per page,
  every target a page), given to \<^verbatim>\<open>PageRankJoin\<close> as the records (page, outgoing
  links), the join-based shape returns after every iteration count exactly the records
  (page, rank) of the index-based shape, so the two rank vectors are equal.
\<close>

theorem C4_join_agrees_with_index:
  fixes links :: "OutgoingLinks DIA" and links_j :: "LinkedPage DIA"
  assumes "0 < length links" and "length (items links) = num_pages"
    and "\<forall>ol \<in> set (items links). \<forall>t \<in> set ol. t < num_pages"
    and "\<forall>p < num_pages. \<exists>ol \<in> set (items links). p \<in> set ol"
    and "0 < length links_j"
    and "mset (items links_j) = mset (zip [0..<num_pages] (items links))"
  shows "\<exists>ri rj. PageRank links num_pages iterations = Inr ri \<and>
                 PageRankJoin h UseLocationDetection links_j num_pages iterations = Inr rj \<and>
                 mset (items rj) = mset (zip [0..<num_pages] (items ri))"
proof (rule PageRankJoin_agrees)
  show "well_formed_links links num_pages"
    using assms(1-3) by (simp add: well_formed_links_def list_all_iff)
qed (use assms in simp_all)

theorem C4_witness:
  "0 < length [[[1], [2]], [[0 :: PageId]]] \<and> length (items [[[1], [2]], [[0 :: PageId]]]) = 3 \<and>
   list_all (list_all (\<lambda>t. t < 3)) (items [[[1], [2]], [[0 :: PageId]]]) \<and>
   list_all (\<lambda>p. list_ex (\<lambda>ol. p \<in> set ol) (items [[[1], [2]], [[0 :: PageId]]])) [0..<3] \<and>
   0 < length [[(2 :: PageId, [0 :: PageId])], [(0, [1]), (1, [2])]] \<and>
   mset (items [[(2 :: PageId, [0 :: PageId])], [(0, [1]), (1, [2])]])
     = mset (zip [0..<3] (items [[[1], [2]], [[0 :: PageId]]])) \<and>
   (\<exists>ri rj. PageRank [[[1], [2]], [[0]]] 3 2 = Inr ri \<and>
            PageRankJoin (\<lambda>p. p) True [[(2, [0])], [(0, [1]), (1, [2])]] 3 2 = Inr rj \<and>
            mset (items rj) = mset (zip [0..<3] (items ri)))"
proof -
  have hyps: "0 < length [[[1], [2]], [[0 :: PageId]]]" "length (items [[[1], [2]], [[0 :: PageId]]]) = 3"
    "\<forall>ol \<in> set (items [[[1], [2]], [[0 :: PageId]]]). \<forall>t \<in> set ol. t < 3"
    "\<forall>p < 3. \<exists>ol \<in> set (items [[[1], [2]], [[0 :: PageId]]]). p \<in> set ol"
    "0 < length [[(2 :: PageId, [0 :: PageId])], [(0, [1]), (1, [2])]]"
    "mset (items [[(2 :: PageId, [0 :: PageId])], [(0, [1]), (1, [2])]])
       = mset (zip [0..<3] (items [[[1], [2]], [[0 :: PageId]]]))"
    by (simp_all add: items_def upt_rec less_Suc_eq numeral_3_eq_3)
  show ?thesis
    using C4_join_agrees_with_index [OF hyps, where h = "\<lambda>p. p" and UseLocationDetection = True
        and iterations = 2] hyps(6)
    by (simp add: items_def upt_rec)
qed

text \<open>Two pages that both link to page 1, so that page 0 has no incoming link. Page 1
  has a rank record in both shapes at every iteration, and from the second iteration on
  the two ranks are at least 51/800 apart.\<close>

theorem C4_counterexample:
  "\<not> (\<forall>\<epsilon> > 0. \<exists>N. \<forall>k \<ge> N. \<exists>ri rj.
        PageRank [[[1], [1]]] 2 k = Inr ri \<and>
        PageRankJoin (\<lambda>p. p) False [[(0, [1]), (1, [1])]] 2 k = Inr rj \<and>
        (\<exists>r. (1, r) \<in> set (items rj) \<and> \<bar>r - items ri ! 1\<bar> < \<epsilon>))"
proof
  assume "\<forall>\<epsilon> > 0. \<exists>N. \<forall>k \<ge> N. \<exists>ri rj.
        PageRank [[[1], [1]]] 2 k = Inr ri \<and>
        PageRankJoin (\<lambda>p. p) False [[(0, [1]), (1, [1])]] 2 k = Inr rj \<and>
        (\<exists>r. (1, r) \<in> set (items rj) \<and> \<bar>r - items ri ! 1\<bar> < \<epsilon>)"
  then have "\<exists>N. \<forall>k \<ge> N. \<exists>ri rj.
        PageRank [[[1], [1]]] 2 k = Inr ri \<and>
        PageRankJoin (\<lambda>p. p) False [[(0, [1]), (1, [1])]] 2 k = Inr rj \<and>
        (\<exists>r. (1, r) \<in> set (items rj) \<and> \<bar>r - items ri ! 1\<bar> < 1 / 100)"
    by (rule allE [where x = "1 / 100"]) simp
  then obtain N where N: "\<forall>k \<ge> N. \<exists>ri rj.
        PageRank [[[1], [1]]] 2 k = Inr ri \<and>
        PageRankJoin (\<lambda>p. p) False [[(0, [1]), (1, [1])]] 2 k = Inr rj \<and>
        (\<exists>r. (1, r) \<in> set (items rj) \<and> \<bar>r - items ri ! 1\<bar> < 1 / 100)"
    by blast
  have "Suc (Suc N) \<ge> N" by simp
  with N obtain ri rj r where
    ri: "PageRank [[[1], [1]]] 2 (Suc (Suc N)) = Inr ri"
    and rj: "PageRankJoin (\<lambda>p. p) False [[(0, [1]), (1, [1])]] 2 (Suc (Suc N)) = Inr rj"
    and r: "(1, r) \<in> set (items rj)" "\<bar>r - items ri ! 1\<bar> < 1 / 100"
    by blast
  from no_inlink_join_ranks [of N] rj obtain r' where "rj = [[(1, r')]]" "r' \<le> 689 / 800"
    by auto
  then have "r \<le> 689 / 800"
    using r(1) by (simp add: items_def)
  moreover have "items ri ! 1 = 37 / 40"
    using ri no_inlink_index_ranks [of "Suc N"] by (auto simp: items_def)
  ultimately show False
    using r(2) by simp
qed

text \<open>
  \<^bold>\<open>Claim C5.\<close> As stated the claim fails for the join-based modes, which write one line per
  record of the final rank collection, and a page without a rank record has no line.
  Amended: with an output path, \<^verbatim>\<open>RunPageRankEdgePerLine\<close> writes exactly one line per
  page \<open>i < num_pages\<close>, in index order, each the decimal page id, a colon, a space and
  the formatted rank of page \<open>i\<close>; \<^verbatim>\<open>RunJoinPageRankEdgePerLine\<close> and
  \<^verbatim>\<open>RunPageRankJoinGenerated\<close> write one such line per record of the final rank
  collection. (\<^verbatim>\<open>RunPageRankGenerated\<close> is not part of the amended claim; what it writes
  is lemma \<open>RunPageRankGenerated_lines\<close>.)
\<close>

theorem C5_output_lines:
  "(Map_or_die PageRankLineParser lines = Inr input \<and>
    RunPageRankEdgePerLine_links input (RunPageRankEdgePerLine_num_pages input) = Inr links \<and>
    PageRank links (RunPageRankEdgePerLine_num_pages input) iterations = Inr ranks \<and>
    0 < length lines \<and> output_path \<noteq> [] \<longrightarrow>
      (\<exists>written. RunPageRankEdgePerLine fmt_g lines output_path iterations = Inr (Some written) \<and>
         length (items written) = RunPageRankEdgePerLine_num_pages input \<and>
         (\<forall>i < RunPageRankEdgePerLine_num_pages input.
            items written ! i = to_string_size_t i @ '': '' @ fmt_g (items ranks ! i)))) \<and>
   (Map_or_die PageRankLineParser lines = Inr input \<and>
    PageRankJoinSelf h True (RunJoinPageRankEdgePerLine_links h input) iterations = Inr ranks_s \<and>
    output_path \<noteq> [] \<longrightarrow>
      (\<exists>written. RunJoinPageRankEdgePerLine h fmt_g lines output_path iterations
                    = Inr (Some written) \<and>
         items written
           = map (\<lambda>rp. to_string_size_t (fst rp) @ '': '' @ fmt_g (snd rp)) (items ranks_s))) \<and>
   (from_str input_path = Some num_pages \<and>
    PageRankJoin h True (Generate ctx num_pages (\<lambda>index. (index, GenerateOutgoing index)))
      num_pages iterations = Inr ranks_j \<and>
    output_path \<noteq> [] \<longrightarrow>
      (\<exists>written. RunPageRankJoinGenerated from_str h fmt_g ctx input_path GenerateOutgoing
                    output_path iterations = Inr (Some written) \<and>
         items written
           = map (\<lambda>rp. to_string_size_t (fst rp) @ '': '' @ fmt_g (snd rp)) (items ranks_j)))"
  using RunPageRankEdgePerLine_lines [of lines input links iterations ranks output_path fmt_g]
  by (simp add: RunJoinPageRankEdgePerLine_def RunPageRankJoinGenerated_def items_Map
      ssprintf_zu_g_def)

theorem C5_witness:
  "Map_or_die PageRankLineParser [[''0 1'', ''1 0'']] = Inr [[\<lparr>src = 0, tgt = 1\<rparr>, \<lparr>src = 1, tgt = 0\<rparr>]] \<and>
   RunPageRankEdgePerLine_num_pages [[\<lparr>src = 0, tgt = 1\<rparr>, \<lparr>src = 1, tgt = 0\<rparr>]] = 2 \<and>
   RunPageRankEdgePerLine_links [[\<lparr>src = 0, tgt = 1\<rparr>, \<lparr>src = 1, tgt = 0\<rparr>]] 2 = Inr [[[1], [0]]] \<and>
   PageRank [[[1], [0]]] 2 1 = Inr [[1 / 2, 1 / 2]] \<and>
   0 < length [[''0 1'', ''1 0'']] \<and> ''out'' \<noteq> [] \<and>
   (\<exists>written. RunPageRankEdgePerLine (\<lambda>r. if r = 1 / 2 then ''0.5'' else ''1'')
                  [[''0 1'', ''1 0'']] ''out'' 1 = Inr (Some written) \<and>
      length (items written) = 2 \<and>
      items written ! 0 = ''0: 0.5'' \<and> items written ! 1 = ''1: 0.5'') \<and>
   PageRankJoinSelf (\<lambda>p. p) True
       (RunJoinPageRankEdgePerLine_links (\<lambda>p. p) [[\<lparr>src = 0, tgt = 1\<rparr>, \<lparr>src = 1, tgt = 0\<rparr>]]) 1
     = Inr [[(1, 1), (0, 1)]] \<and>
   (\<exists>written. RunJoinPageRankEdgePerLine (\<lambda>p. p) (\<lambda>r. if r = 1 / 2 then ''0.5'' else ''1'')
                  [[''0 1'', ''1 0'']] ''out'' 1 = Inr (Some written) \<and>
      items written = [''1: 1'', ''0: 1'']) \<and>
   PageRankJoin (\<lambda>p. p) True (Generate \<lparr>num_workers = 1\<rparr> 2 (\<lambda>index. (index, [1 - index]))) 2 1
     = Inr [[(1, 1 / 2), (0, 1 / 2)]] \<and>
   (\<exists>written. RunPageRankJoinGenerated (\<lambda>_. Some 2) (\<lambda>p. p)
                  (\<lambda>r. if r = 1 / 2 then ''0.5'' else ''1'') \<lparr>num_workers = 1\<rparr> ''2''
                  (\<lambda>index. [1 - index]) ''out'' 1 = Inr (Some written) \<and>
      items written = [''1: 0.5'', ''0: 0.5''])"
proof -
  have parse: "Map_or_die PageRankLineParser [[''0 1'', ''1 0'']]
                 = Inr [[\<lparr>src = 0, tgt = 1\<rparr>, \<lparr>src = 1, tgt = 0\<rparr>]]"
    by (simp add: Map_or_die_def parser_defs)
  have n: "RunPageRankEdgePerLine_num_pages [[\<lparr>src = 0, tgt = 1\<rparr>, \<lparr>src = 1, tgt = 0\<rparr>]] = 2"
    by (simp add: RunPageRankEdgePerLine_num_pages_def Max_DIA_def Map_def items_def)
  have e: "RunPageRankEdgePerLine_links [[\<lparr>src = 0, tgt = 1\<rparr>, \<lparr>src = 1, tgt = 0\<rparr>]] 2 = Inr [[[1], [0]]]"
    "PageRank [[[1], [0]]] 2 1 = Inr [[1 / 2, 1 / 2]]"
    "PageRankJoinSelf (\<lambda>p. p) True
       (RunJoinPageRankEdgePerLine_links (\<lambda>p. p) [[\<lparr>src = 0, tgt = 1\<rparr>, \<lparr>src = 1, tgt = 0\<rparr>]]) 1
     = Inr [[(1, 1), (0, 1)]]"
    "PageRankJoin (\<lambda>p. p) True (Generate \<lparr>num_workers = 1\<rparr> 2 (\<lambda>index. (index, [1 - index]))) 2 1
     = Inr [[(1, 1 / 2), (0, 1 / 2)]]"
    by code_simp+
  from C5_output_lines [of "[[''0 1'', ''1 0'']]" "[[\<lparr>src = 0, tgt = 1\<rparr>, \<lparr>src = 1, tgt = 0\<rparr>]]"
        "[[[1], [0]]]" 1 "[[1 / 2, 1 / 2]]" "''out''" "\<lambda>r. if r = 1 / 2 then ''0.5'' else ''1''"
        "\<lambda>p. p" "[[(1, 1), (0, 1)]]" "\<lambda>_. Some 2" "''2''" 2 "\<lparr>num_workers = 1\<rparr>"
        "\<lambda>index. [1 - index]" "[[(1, 1 / 2), (0, 1 / 2)]]", unfolded parse n e]
  obtain w1 w2 w3 where
    w1: "RunPageRankEdgePerLine (\<lambda>r. if r = 1 / 2 then ''0.5'' else ''1'')
           [[''0 1'', ''1 0'']] ''out'' 1 = Inr (Some w1)"
      "length (items w1) = 2"
      "\<forall>i < 2. items w1 ! i = to_string_size_t i @ '': '' @
          (if items [[1 / 2, 1 / 2 :: Rank]] ! i = 1 / 2 then ''0.5'' else ''1'')"
    and w2: "RunJoinPageRankEdgePerLine (\<lambda>p. p) (\<lambda>r. if r = 1 / 2 then ''0.5'' else ''1'')
           [[''0 1'', ''1 0'']] ''out'' 1 = Inr (Some w2)"
      "items w2 = map (\<lambda>rp. to_string_size_t (fst rp) @ '': '' @
          (if snd rp = 1 / 2 then ''0.5'' else ''1'')) (items [[(1, 1), (0, 1 :: Rank)]])"
    and w3: "RunPageRankJoinGenerated (\<lambda>_. Some 2) (\<lambda>p. p)
           (\<lambda>r. if r = 1 / 2 then ''0.5'' else ''1'') \<lparr>num_workers = 1\<rparr> ''2''
           (\<lambda>index. [1 - index]) ''out'' 1 = Inr (Some w3)"
      "items w3 = map (\<lambda>rp. to_string_size_t (fst rp) @ '': '' @
          (if snd rp = 1 / 2 then ''0.5'' else ''1'')) (items [[(1, 1 / 2), (0, 1 / 2 :: Rank)]])"
    by auto
  have "items w1 ! 0 = ''0: 0.5''" "items w1 ! 1 = ''1: 0.5''"
    using w1(3) [rule_format, of 0] w1(3) [rule_format, of 1]
    by (simp_all add: items_def to_string_size_t.simps)
  moreover have "items w2 = [''1: 1'', ''0: 1'']" "items w3 = [''1: 0.5'', ''0: 0.5'']"
    using w2(2) w3(2) by (simp_all add: items_def to_string_size_t.simps)
  ultimately show ?thesis
    unfolding parse n e using w1(1,2) w2(1) w3(1) by simp
qed

text \<open>The generated join mode on two pages that both link to page 1, with one iteration,
  writes one line for two pages: page 0 has no incoming link and no line. (The rank 37/40
  of page 1 is formatted as \<^verbatim>\<open>0.925\<close>.)\<close>

theorem C5_counterexample:
  "RunPageRankJoinGenerated (\<lambda>_. Some 2) (\<lambda>p. p) (\<lambda>_. ''0.925'') \<lparr>num_workers = 1\<rparr> ''2''
       (\<lambda>_. [1]) ''out'' 1 = Inr (Some [[''1: 0.925'']]) \<and>
   length (items [[''1: 0.925'']]) \<noteq> 2"
proof -
  have "PageRankJoin (\<lambda>p. p) True (Generate \<lparr>num_workers = 1\<rparr> 2 (\<lambda>index. (index, [1]))) 2 1
          = Inr [[(1, 37 / 40)]]"
    by code_simp
  then show ?thesis
    by (simp add: RunPageRankJoinGenerated_def Map_def items_def ssprintf_zu_g_def
        to_string_size_t.simps)
qed

text \<open>
  \<^bold>\<open>Claim C6.\<close> As stated the claim fails for page 0, which receives two contributions (from pages
  2 and 3). Amended: on the graph with edges (0,1), (1,2), (2,0), (3,0) and
  \<open>num_pages = 4\<close>, after exactly one iteration of the index-based shape page 3 has
  rank \<open>0.0375\<close>, pages 1 and 2 have rank \<open>0.85 * (1/4) + 0.0375\<close>, and page 0 has
  rank \<open>0.85 * (1/4 + 1/4) + 0.0375\<close>.
\<close>

theorem C6_scenario_A:
  assumes "0 < length input"
    and "items input = [\<lparr>src = 0, tgt = 1\<rparr>, \<lparr>src = 1, tgt = 2\<rparr>, \<lparr>src = 2, tgt = 0\<rparr>,
                        \<lparr>src = 3, tgt = 0\<rparr>]"
  shows "RunPageRankEdgePerLine_num_pages input = 4 \<and>
         (\<exists>links ranks.
            RunPageRankEdgePerLine_links input 4 = Inr links \<and>
            items links = [[1], [2], [0], [0]] \<and>
            PageRank links 4 1 = Inr ranks \<and>
            items ranks = [0.85 * (1 / 4 + 1 / 4) + 0.0375, 0.85 * (1 / 4) + 0.0375,
                           0.85 * (1 / 4) + 0.0375, 0.0375])"
proof -
  let ?links = "range_split (length input) [[1], [2], [0], [0 :: PageId]]"
  note irs = items_range_split [OF assms(1)]
  have n: "RunPageRankEdgePerLine_num_pages input = 4"
    by (simp add: RunPageRankEdgePerLine_num_pages_def Max_DIA_def items_Map assms(2))
  have l: "RunPageRankEdgePerLine_links input 4 = Inr ?links"
    by (simp add: RunPageRankEdgePerLine_links_def GroupToIndex_def assms(2) upt_rec)
  have ll: "length ?links = length input"
    by (simp add: length_range_split)
  have wf: "well_formed_links ?links 4"
    using assms(1) by (simp add: well_formed_links_def irs length_range_split)
  have init: "length (items (Generate (DIA_context ?links) 4 (\<lambda>_. 1 / real 4 :: Rank))) = 4"
    using assms(1) by (simp add: items_Generate DIA_context_def length_range_split)
  have "PageRank_iter ?links 4 (Generate (DIA_context ?links) 4 (\<lambda>_. 1 / real 4))
      = Inr (range_split (length input)
          [0.85 * (1 / 4 + 1 / 4) + 0.0375, 0.85 * (1 / 4) + 0.0375, 0.85 * (1 / 4) + 0.0375, 0.0375])"
    unfolding PageRank_iter_step [OF wf init]
    using assms(1)
    by (simp add: irs length_range_split items_Generate DIA_context_def
        contributions_def emitted_def rawTotal_def dampening_def upt_rec)
  then have "PageRank ?links 4 1 = Inr (range_split (length input)
          [0.85 * (1 / 4 + 1 / 4) + 0.0375, 0.85 * (1 / 4) + 0.0375, 0.85 * (1 / 4) + 0.0375, 0.0375])"
    by (simp add: PageRank_def)
  then show ?thesis
    using n l by (simp add: irs)
qed

theorem C6_witness:
  "0 < length [[\<lparr>src = 0, tgt = 1\<rparr>, \<lparr>src = 1, tgt = 2\<rparr>], [\<lparr>src = 2, tgt = 0\<rparr>, \<lparr>src = 3, tgt = 0\<rparr>]] \<and>
   items [[\<lparr>src = 0, tgt = 1\<rparr>, \<lparr>src = 1, tgt = 2\<rparr>], [\<lparr>src = 2, tgt = 0\<rparr>, \<lparr>src = 3, tgt = 0\<rparr>]]
     = [\<lparr>src = 0, tgt = 1\<rparr>, \<lparr>src = 1, tgt = 2\<rparr>, \<lparr>src = 2, tgt = 0\<rparr>, \<lparr>src = 3, tgt = 0\<rparr>] \<and>
   RunPageRankEdgePerLine_num_pages
     [[\<lparr>src = 0, tgt = 1\<rparr>, \<lparr>src = 1, tgt = 2\<rparr>], [\<lparr>src = 2, tgt = 0\<rparr>, \<lparr>src = 3, tgt = 0\<rparr>]] = 4 \<and>
   (\<exists>links ranks.
      RunPageRankEdgePerLine_links
        [[\<lparr>src = 0, tgt = 1\<rparr>, \<lparr>src = 1, tgt = 2\<rparr>], [\<lparr>src = 2, tgt = 0\<rparr>, \<lparr>src = 3, tgt = 0\<rparr>]] 4
          = Inr links \<and>
      items links = [[1], [2], [0], [0]] \<and>
      PageRank links 4 1 = Inr ranks \<and>
      items ranks = [0.85 * (1 / 4 + 1 / 4) + 0.0375, 0.85 * (1 / 4) + 0.0375,
                     0.85 * (1 / 4) + 0.0375, 0.0375])"
  using C6_scenario_A [of "[[\<lparr>src = 0, tgt = 1\<rparr>, \<lparr>src = 1, tgt = 2\<rparr>], [\<lparr>src = 2, tgt = 0\<rparr>, \<lparr>src = 3, tgt = 0\<rparr>]]"]
  by (simp add: items_def)

theorem C6_counterexample:
  "RunPageRankEdgePerLine_links
     [[\<lparr>src = 0, tgt = 1\<rparr>, \<lparr>src = 1, tgt = 2\<rparr>, \<lparr>src = 2, tgt = 0\<rparr>, \<lparr>src = 3, tgt = 0\<rparr>]] 4
       = Inr [[[1], [2], [0], [0]]] \<and>
   PageRank [[[1], [2], [0], [0]]] 4 1 = Inr [[37 / 80, 1 / 4, 1 / 4, 3 / 80]] \<and>
   (37 / 80 :: real) \<noteq> 0.85 * (1 / 4) + 0.0375"
proof -
  have "RunPageRankEdgePerLine_links
     [[\<lparr>src = 0, tgt = 1\<rparr>, \<lparr>src = 1, tgt = 2\<rparr>, \<lparr>src = 2, tgt = 0\<rparr>, \<lparr>src = 3, tgt = 0\<rparr>]] 4
       = Inr [[[1], [2], [0], [0]]]"
    by code_simp
  moreover have "PageRank [[[1], [2], [0], [0]]] 4 1 = Inr [[37 / 80, 1 / 4, 1 / 4, 3 / 80]]"
    by code_simp
  ultimately show ?thesis by simp
qed

text \<open>
  \<^bold>\<open>Claim C7.\<close> The contribution stage of each of the three variants is the \<^verbatim>\<open>FlatMap\<close>
  over the paired records (outgoing links, rank): the result of \<^verbatim>\<open>Zip\<close> in the
  index-based shape, the result of \<^verbatim>\<open>InnerJoin\<close> in the two join shapes. The stage never
  ends in an error of its own, in particular never in a division by zero, and its result
  holds, worker by worker and in the order of the input, for every input record with
  outgoing links \<open>ol\<close> and rank \<open>r\<close> exactly the records (target, \<open>r / length ol\<close>), one per
  element of \<open>ol\<close>: no record when \<open>ol\<close> is empty, \<open>k\<close> records valued \<open>r / k\<close> when it has
  \<open>k > 0\<close> elements. The same holds of the function given to \<^verbatim>\<open>FlatMap\<close> on a single
  record.
\<close>

theorem C7_contribution_stage:
  "PageRank_contribs links ranks =
     (case Zip links ranks (\<lambda>ol r. (ol, r)) of
        Inl e \<Rightarrow> Inl e
      | Inr outs_rank \<Rightarrow>
          Inr (map (\<lambda>part. concat (map (\<lambda>(ol, r).
                 map (\<lambda>tgt. \<lparr>page = tgt, rank = r / real (length ol)\<rparr>) ol) part)) outs_rank)) \<and>
   PageRankJoinSelf_contribs h flag linked ranked =
     Inr (map (\<lambda>part. concat (map (\<lambda>(ol, r). map (\<lambda>tgt. (tgt, r / real (length ol))) ol) part))
            (InnerJoin h flag linked ranked fst fst (\<lambda>lp rp. (snd lp, snd rp)))) \<and>
   PageRankJoin_contribs h flag linked ranked =
     Inr (map (\<lambda>part. concat (map (\<lambda>(ol, r). map (\<lambda>tgt. (tgt, r / real (length ol))) ol) part))
            (InnerJoin h flag linked ranked fst fst (\<lambda>lp rp. (snd lp, snd rp)))) \<and>
   PageRank_contribs links ranks \<noteq> Inl DivisionByZero \<and>
   PageRankJoinSelf_contribs h flag linked ranked \<noteq> Inl DivisionByZero \<and>
   PageRankJoin_contribs h flag linked ranked \<noteq> Inl DivisionByZero \<and>
   PageRank_emit ([], r) = Inr [] \<and>
   PageRankJoinSelf_emit ([], r) = Inr [] \<and>
   PageRankJoin_emit ([], r) = Inr [] \<and>
   PageRank_emit (ol, r) = Inr (map (\<lambda>tgt. \<lparr>page = tgt, rank = r / real (length ol)\<rparr>) ol) \<and>
   PageRankJoinSelf_emit (ol, r) = Inr (map (\<lambda>tgt. (tgt, r / real (length ol))) ol) \<and>
   PageRankJoin_emit (ol, r) = Inr (map (\<lambda>tgt. (tgt, r / real (length ol))) ol)"
proof -
  have index: "PageRank_contribs links ranks =
     (case Zip links ranks (\<lambda>ol r. (ol, r)) of
        Inl e \<Rightarrow> Inl e
      | Inr outs_rank \<Rightarrow>
          Inr (map (\<lambda>part. concat (map (\<lambda>(ol, r).
                 map (\<lambda>tgt. \<lparr>page = tgt, rank = r / real (length ol)\<rparr>) ol) part)) outs_rank))"
  proof (cases "Zip links ranks (\<lambda>ol r. (ol, r))")
    case (Inl e)
    then show ?thesis by (simp add: PageRank_contribs_def)
  next
    case (Inr outs_rank)
    have "FlatMap PageRank_emit outs_rank =
            Inr (map (\<lambda>part. concat (map (\<lambda>(ol, r).
                 map (\<lambda>tgt. \<lparr>page = tgt, rank = r / real (length ol)\<rparr>) ol) part)) outs_rank)"
      by (rule FlatMap_total) (simp add: PageRank_emit_eq case_prod_beta)
    with Inr show ?thesis by (simp add: PageRank_contribs_def)
  qed
  have self: "PageRankJoinSelf_contribs h flag linked ranked =
     Inr (map (\<lambda>part. concat (map (\<lambda>(ol, r). map (\<lambda>tgt. (tgt, r / real (length ol))) ol) part))
            (InnerJoin h flag linked ranked fst fst (\<lambda>lp rp. (snd lp, snd rp))))"
    unfolding PageRankJoinSelf_contribs_def
    by (rule FlatMap_total) (simp add: PageRankJoinSelf_emit_eq case_prod_beta)
  have join: "PageRankJoin_contribs h flag linked ranked =
     Inr (map (\<lambda>part. concat (map (\<lambda>(ol, r). map (\<lambda>tgt. (tgt, r / real (length ol))) ol) part))
            (InnerJoin h flag linked ranked fst fst (\<lambda>lp rp. (snd lp, snd rp))))"
    unfolding PageRankJoin_contribs_def
    by (rule FlatMap_total) (simp add: PageRankJoin_emit_eq case_prod_beta)
  have "PageRank_contribs links ranks \<noteq> Inl DivisionByZero"
    unfolding index by (simp add: Zip_def)
  moreover have "PageRankJoinSelf_contribs h flag linked ranked \<noteq> Inl DivisionByZero"
    "PageRankJoin_contribs h flag linked ranked \<noteq> Inl DivisionByZero"
    unfolding self join by simp_all
  moreover have "PageRank_emit ([], r) = Inr []" "PageRankJoinSelf_emit ([], r) = Inr []"
    "PageRankJoin_emit ([], r) = Inr []"
    "PageRank_emit (ol, r) = Inr (map (\<lambda>tgt. \<lparr>page = tgt, rank = r / real (length ol)\<rparr>) ol)"
    "PageRankJoinSelf_emit (ol, r) = Inr (map (\<lambda>tgt. (tgt, r / real (length ol))) ol)"
    "PageRankJoin_emit (ol, r) = Inr (map (\<lambda>tgt. (tgt, r / real (length ol))) ol)"
    by (simp_all add: PageRank_emit_def PageRankJoinSelf_emit_def PageRankJoin_emit_def rank_div_def)
  ultimately show ?thesis
    using index self join by (intro conjI)
qed

text \<open>Two workers; the record of the second worker has no outgoing link and gives no
  contribution record.\<close>

theorem C7_witness:
  "PageRank_contribs [[[1, 2]], [[]]] [[1 / 2], [1 / 2]]
     = Inr [[\<lparr>page = 1, rank = 1 / 4\<rparr>, \<lparr>page = 2, rank = 1 / 4\<rparr>], []] \<and>
   PageRankJoinSelf_contribs (\<lambda>p. p) True [[(0, [1, 2])], [(1, [])]] [[(0, 1 / 2)], [(1, 1 / 2)]]
     = Inr [[(1, 1 / 4), (2, 1 / 4)], []] \<and>
   PageRankJoin_contribs (\<lambda>p. p) False [[(0, [1, 2])], [(1, [])]] [[(0, 1 / 2)], [(1, 1 / 2)]]
     = Inr [[(1, 1 / 4), (2, 1 / 4)], []]"
proof -
  have z: "Zip [[[1, 2]], [[]]] [[1 / 2], [1 / 2 :: Rank]] (\<lambda>ol r. (ol, r))
             = Inr [[([1, 2 :: PageId], 1 / 2)], [([], 1 / 2)]]"
    by code_simp
  have j: "InnerJoin (\<lambda>p. p) True [[(0, [1, 2])], [(1, [])]] [[(0, 1 / 2)], [(1, 1 / 2 :: Rank)]]
             fst fst (\<lambda>lp rp. (snd lp, snd rp)) = [[([1, 2 :: PageId], 1 / 2)], [([], 1 / 2)]]"
    "InnerJoin (\<lambda>p. p) False [[(0, [1, 2])], [(1, [])]] [[(0, 1 / 2)], [(1, 1 / 2 :: Rank)]]
             fst fst (\<lambda>lp rp. (snd lp, snd rp)) = [[([1, 2 :: PageId], 1 / 2)], [([], 1 / 2)]]"
    by code_simp+
  show ?thesis
    using C7_contribution_stage [where links = "[[[1, 2]], [[]]]" and ranks = "[[1 / 2], [1 / 2]]"
        and h = "\<lambda>p. p" and flag = True and linked = "[[(0, [1, 2])], [(1, [])]]"
        and ranked = "[[(0, 1 / 2)], [(1, 1 / 2)]]"]
      C7_contribution_stage [where h = "\<lambda>p. p" and flag = False
        and linked = "[[(0, [1, 2])], [(1, [])]]" and ranked = "[[(0, 1 / 2)], [(1, 1 / 2)]]"]
    unfolding z j by simp
qed




text \<open>
  \<^bold>\<open>Claim C10.\<close> The claim fails on the code for an edge with page id \<open>2^64 - 1\<close>:
  \<^verbatim>\<open>Max() + 1\<close> wraps around to \<open>num_pages = 0\<close>, and the keys given to
  \<^verbatim>\<open>GroupToIndex\<close> are not below \<open>num_pages\<close>.
\<close>

theorem C10_overflow:
  "PageRankLineParser ''18446744073709551615 0''
     = Inr \<lparr>src = 18446744073709551615, tgt = 0\<rparr> \<and>
   RunPageRankEdgePerLine_num_pages [[\<lparr>src = 18446744073709551615, tgt = 0\<rparr>]] = 0 \<and>
   RunPageRankEdgePerLine_links [[\<lparr>src = 18446744073709551615, tgt = 0\<rparr>]] 0 = Inl KeyOutOfRange \<and>
   RunPageRankEdgePerLine fmt_g [[''18446744073709551615 0'']] output_path iterations
     = Inl KeyOutOfRange"
  by (simp add: RunPageRankEdgePerLine_def Map_or_die_def parser_defs
      RunPageRankEdgePerLine_num_pages_def Max_DIA_def Map_def items_def
      RunPageRankEdgePerLine_links_def GroupToIndex_def)

end
